theory Spec2Isabelle
  imports Main "HOL-Library.AList" "HOL-Library.Multiset" "HOL-Library.Char_ord"
    "HOL-Library.List_Lexorder"
begin

section \<open>The data-access layer \<open>lmsdatastore.py\<close>\<close>

text \<open>
  The module maps users, courses and lessons onto a hierarchical keyed store. Every
  public operation builds keys with \<open>_load_key\<close>, performs gets, puts or one query, and
  translates records to domain objects. The store client and the domain classes are
  imported by the module; their contracts are written out below, everything else is a
  line-by-line translation of the module. An exception is a result \<open>Inl\<close>; the calls of
  \<open>log\<close> only print and are left out.
\<close>

subsection \<open>Python values used as identifiers, and exceptions\<close>

text \<open>
  An identifier handed to \<open>_load_key\<close> is \<open>None\<close>, an integer or a string. Python's
  truth test on it is \<open>truthy\<close>: \<open>None\<close>, \<open>0\<close> and the empty string are false.
\<close>

datatype ident = NoneId | IntId int | StrId string

fun truthy :: "ident \<Rightarrow> bool" where
  "truthy NoneId = False"
| "truthy (IntId n) = (n \<noteq> 0)"
| "truthy (StrId s) = (s \<noteq> [])"

text \<open>The exceptions the module's own statements can raise.\<close>

datatype error = AttributeError | TypeError | KeyError | ValueError

subsection \<open>Keys\<close>

text \<open>
  A key names a kind, an identifier (absent in an incomplete key) and optionally a parent
  key. The key class belongs to the client library, which the module imports; three of
  its behaviours decide what the module does and are written out here: a key whose last
  identifier is missing is incomplete (\<open>is_partial\<close>), an incomplete key is equal to no
  key, not even to a copy of itself (\<open>key_eq\<close>), and a numeric identifier travels to
  the store as a signed 64-bit integer (\<open>key_fits\<close>).
\<close>

datatype key = Key (kind: string) (ident: ident) (parent: "key option")

definition key_name :: "key \<Rightarrow> string option" where
  "key_name k = (case ident k of StrId s \<Rightarrow> Some s | _ \<Rightarrow> None)"

definition key_id :: "key \<Rightarrow> int option" where
  "key_id k = (case ident k of IntId n \<Rightarrow> Some n | _ \<Rightarrow> None)"

definition is_partial :: "key \<Rightarrow> bool" where
  "is_partial k = (\<not> truthy (ident k))"

text \<open>\<open>a == b\<close> on keys: both complete and the same path.\<close>

definition key_eq :: "key \<Rightarrow> key \<Rightarrow> bool" where
  "key_eq a b = (\<not> is_partial a \<and> \<not> is_partial b \<and> a = b)"

definition int64_ok :: "int \<Rightarrow> bool" where
  "int64_ok n = (- (2 ^ 63) \<le> n \<and> n < 2 ^ 63)"

fun ident_fits :: "ident \<Rightarrow> bool" where
  "ident_fits NoneId = True"
| "ident_fits (IntId n) = int64_ok n"
| "ident_fits (StrId s) = True"

fun key_fits :: "key \<Rightarrow> bool" where
  "key_fits (Key kd i None) = ident_fits i"
| "key_fits (Key kd i (Some p)) = (ident_fits i \<and> key_fits p)"

text \<open>
  A Python set of keys, kept as the list of its members. The keys of one list are
  separate objects, so \<open>add\<close> skips a key only when it is equal to a member, and a
  freshly built key is \<open>in\<close> the set only when it is equal to a member.
\<close>

definition set_add :: "key \<Rightarrow> key list \<Rightarrow> key list" where
  "set_add k s = (if list_ex (key_eq k) s then s else s @ [k])"

definition set_contains :: "key list \<Rightarrow> key \<Rightarrow> bool" where
  "set_contains s k = list_ex (key_eq k) s"

fun key_complete :: "key \<Rightarrow> bool" where
  "key_complete (Key kd i None) = truthy i"
| "key_complete (Key kd i (Some p)) = (truthy i \<and> key_complete p)"

fun is_ancestor :: "key \<Rightarrow> key \<Rightarrow> bool" where
  "is_ancestor a (Key kd i None) = (a = Key kd i None)"
| "is_ancestor a (Key kd i (Some p)) = (a = Key kd i (Some p) \<or> is_ancestor a p)"

definition USER_ENTITY :: string where "USER_ENTITY = ''LmsUser''"
definition COURSE_ENTITY :: string where "COURSE_ENTITY = ''LmsCourse''"
definition LESSON_ENTITY :: string where "LESSON_ENTITY = ''LmsLesson''"

subsection \<open>Records of the store\<close>

text \<open>
  A stored record (an entity) is a key with a dictionary of properties. The properties
  this module reads and writes are string valued, except \<open>completions\<close>, a list of
  keys; the dictionary is kept as the string-valued part (in insertion order) and the
  optional \<open>completions\<close> entry.
\<close>

record props =
  strs :: "(string \<times> string) list"
  completions :: "key list option"

type_synonym entity = "key \<times> props"

definition entity_key :: "entity \<Rightarrow> key" where
  "entity_key e = fst e"

definition empty_props :: props where
  "empty_props = \<lparr>strs = [], completions = None\<rparr>"

text \<open>\<open>entity[name]\<close> for a string-valued property: \<open>KeyError\<close> when it is absent.\<close>

definition getitem :: "entity \<Rightarrow> string \<Rightarrow> error + string" where
  "getitem e name = (case map_of (strs (snd e)) name of None \<Rightarrow> Inl KeyError | Some v \<Rightarrow> Inr v)"

text \<open>\<open>entity['completions']\<close>.\<close>

definition getitem_completions :: "entity \<Rightarrow> error + key list" where
  "getitem_completions e = (case completions (snd e) of None \<Rightarrow> Inl KeyError | Some ks \<Rightarrow> Inr ks)"

text \<open>\<open>entity[name] = v\<close>: replaces the value in place or adds the property.\<close>

definition setitem :: "entity \<Rightarrow> string \<Rightarrow> string \<Rightarrow> entity" where
  "setitem e name v = (fst e, (snd e)\<lparr>strs := AList.update name v (strs (snd e))\<rparr>)"

definition setitem_completions :: "entity \<Rightarrow> key list \<Rightarrow> entity" where
  "setitem_completions e ks = (fst e, (snd e)\<lparr>completions := Some ks\<rparr>)"

text \<open>An entity is a dictionary, so it is false in a truth test when it has no property.\<close>

definition entity_truthy :: "entity \<Rightarrow> bool" where
  "entity_truthy e = (strs (snd e) \<noteq> [] \<or> completions (snd e) \<noteq> None)"

subsection \<open>The store client\<close>

text \<open>
  Modelled from the spec: the store itself, an external collaborator with the contract
  \<open>get(key) -> record | NotFound\<close>, \<open>put(record)\<close> (create or replace by key) and
  \<open>query(kind, ancestor, equality filters, order)\<close>. The store is the list of its
  records in the order an unordered query returns them; \<open>lookup\<close> is its get. A put
  under an incomplete key has the store assign a fresh numeric identifier (the source:
  "this will generate an ID").

  The client in front of the store raises \<open>ValueError\<close> in three places: \<open>client.key\<close>
  refuses an incomplete parent key, and \<open>client.get\<close> and \<open>client.put\<close> cannot send a
  key with a number outside 64 bits, be it the record's own key or a key among its
  \<open>completions\<close>.
\<close>

type_synonym store = "entity list"

definition client_key :: "string \<Rightarrow> ident \<Rightarrow> key option \<Rightarrow> error + key" where
  "client_key entity_type entity_id parent_key =
     (case parent_key of
        None \<Rightarrow> Inr (Key entity_type entity_id None)
      | Some p \<Rightarrow>
          (if is_partial p then Inl ValueError
           else Inr (Key entity_type entity_id (Some p))))"

definition lookup :: "store \<Rightarrow> key \<Rightarrow> entity option" where
  "lookup st k = (case map_of st k of None \<Rightarrow> None | Some p \<Rightarrow> Some (k, p))"

definition client_get :: "store \<Rightarrow> key \<Rightarrow> error + entity option" where
  "client_get st k = (if key_fits k then Inr (lookup st k) else Inl ValueError)"

definition fresh_id :: "store \<Rightarrow> int" where
  "fresh_id st = 1 + fold max (List.map_filter (\<lambda>e. key_id (fst e)) st) 0"

definition put_fits :: "entity \<Rightarrow> bool" where
  "put_fits e =
     (key_fits (fst e)
      \<and> (case completions (snd e) of None \<Rightarrow> True | Some ks \<Rightarrow> list_all key_fits ks))"

definition client_put :: "store \<Rightarrow> entity \<Rightarrow> error + store" where
  "client_put st e =
     (if put_fits e
      then Inr (let k = (if is_partial (fst e)
                         then Key (kind (fst e)) (IntId (fresh_id st)) (parent (fst e))
                         else fst e)
                in AList.update k (snd e) st)
      else Inl ValueError)"

record query =
  q_kind :: string
  q_ancestor :: "key option"
  q_filters :: "(string \<times> string) list"
  q_order :: "string list"

definition client_query :: "string \<Rightarrow> key option \<Rightarrow> query" where
  "client_query kd anc = \<lparr>q_kind = kd, q_ancestor = anc, q_filters = [], q_order = []\<rparr>"

text \<open>\<open>q.add_filter(name, '=', value)\<close>.\<close>

definition add_filter :: "query \<Rightarrow> string \<Rightarrow> string \<Rightarrow> query" where
  "add_filter q name v = q\<lparr>q_filters := q_filters q @ [(name, v)]\<rparr>"

definition matches :: "query \<Rightarrow> entity \<Rightarrow> bool" where
  "matches q e =
     (kind (fst e) = q_kind q
      \<and> (case q_ancestor q of None \<Rightarrow> True | Some a \<Rightarrow> is_ancestor a (fst e))
      \<and> list_all (\<lambda>(name, v). map_of (strs (snd e)) name = Some v) (q_filters q))"

definition has_prop :: "string \<Rightarrow> entity \<Rightarrow> bool" where
  "has_prop name e = (map_of (strs (snd e)) name \<noteq> None)"

definition prop_value :: "string \<Rightarrow> entity \<Rightarrow> string" where
  "prop_value name e = (case map_of (strs (snd e)) name of None \<Rightarrow> [] | Some v \<Rightarrow> v)"

text \<open>
  The sort order of a query: a property name, with a leading minus sign for descending
  order. Records without the property are not returned by an ordered query.
\<close>

fun apply_order :: "string list \<Rightarrow> entity list \<Rightarrow> entity list" where
  "apply_order [] es = es"
| "apply_order ((CHR ''-'' # name) # _) es = rev (sort_key (prop_value name) (filter (has_prop name) es))"
| "apply_order (name # _) es = sort_key (prop_value name) (filter (has_prop name) es)"

definition fetch :: "store \<Rightarrow> query \<Rightarrow> entity list" where
  "fetch st q = apply_order (q_order q) (filter (matches q) st)"

subsection \<open>Domain objects\<close>

text \<open>
  Modelled from the spec: the classes of the module \<open>lmsdata\<close>, which the source
  imports; only their constructors' argument lists and \<open>add_lesson\<close> are used.
  \<open>Course(code, name, description, lessons)\<close>, \<open>Lesson(id, title, content)\<close>,
  \<open>User(username, email, about)\<close>.
\<close>

record Lesson =
  lesson_id :: "int option"
  lesson_title :: string
  lesson_content :: string

record Course =
  course_code :: "string option"
  course_name :: string
  course_description :: string
  lessons :: "Lesson list"

record User =
  username :: string
  email :: string
  about :: string

definition add_lesson :: "Course \<Rightarrow> Lesson \<Rightarrow> Course" where
  "add_lesson c l = c\<lparr>lessons := lessons c @ [l]\<rparr>"

subsection \<open>Private helpers of the module\<close>

text \<open>
  \<open>_load_key\<close>: with a true identifier the key is built from kind, identifier and parent
  (which \<open>client.key\<close> may refuse); otherwise the key names the kind only.
\<close>

definition load_key :: "string \<Rightarrow> ident \<Rightarrow> key option \<Rightarrow> error + key" where
  "load_key entity_type entity_id parent_key =
     (if truthy entity_id then client_key entity_type entity_id parent_key
      else client_key entity_type NoneId None)"

text \<open>\<open>_load_entity\<close>: the record under the key of \<open>_load_key\<close>, or \<open>None\<close>.\<close>

definition load_entity ::
  "store \<Rightarrow> string \<Rightarrow> ident \<Rightarrow> key option \<Rightarrow> error + entity option" where
  "load_entity st entity_type entity_id parent_key =
     (case load_key entity_type entity_id parent_key of
        Inl err \<Rightarrow> Inl err
      | Inr k \<Rightarrow> client_get st k)"

text \<open>\<open>_course_from_entity\<close>; the argument may be \<open>None\<close>, whose \<open>.key\<close> raises.\<close>

definition course_from_entity :: "entity option \<Rightarrow> error + Course" where
  "course_from_entity course_entity =
     (case course_entity of
        None \<Rightarrow> Inl AttributeError
      | Some e \<Rightarrow>
          (case getitem e ''name'' of
             Inl err \<Rightarrow> Inl err
           | Inr name \<Rightarrow>
               (case getitem e ''description'' of
                  Inl err \<Rightarrow> Inl err
                | Inr desc \<Rightarrow>
                    Inr \<lparr>course_code = key_name (entity_key e), course_name = name,
                         course_description = desc, lessons = []\<rparr>)))"

text \<open>\<open>_lesson_from_entity\<close>.\<close>

definition lesson_from_entity :: "entity option \<Rightarrow> bool \<Rightarrow> error + Lesson" where
  "lesson_from_entity lesson_entity include_content =
     (case lesson_entity of
        None \<Rightarrow> Inl AttributeError
      | Some e \<Rightarrow>
          (case getitem e ''title'' of
             Inl err \<Rightarrow> Inl err
           | Inr title \<Rightarrow>
               (if include_content
                then (case getitem e ''content'' of
                        Inl err \<Rightarrow> Inl err
                      | Inr content \<Rightarrow>
                          Inr \<lparr>lesson_id = key_id (entity_key e), lesson_title = title,
                               lesson_content = content\<rparr>)
                else Inr \<lparr>lesson_id = key_id (entity_key e), lesson_title = title,
                          lesson_content = []\<rparr>)))"

subsection \<open>Course operations\<close>

text \<open>The loop of \<open>load_course\<close> over the lessons the ancestor query returns.\<close>

fun add_lessons :: "Course \<Rightarrow> entity list \<Rightarrow> error + Course" where
  "add_lessons course [] = Inr course"
| "add_lessons course (lesson # rest) =
     (case lesson_from_entity (Some lesson) False of
        Inl err \<Rightarrow> Inl err
      | Inr l \<Rightarrow> add_lessons (add_lesson course l) rest)"

definition load_course :: "store \<Rightarrow> string \<Rightarrow> error + Course" where
  "load_course st code =
     (case load_entity st COURSE_ENTITY (StrId code) None of
        Inl err \<Rightarrow> Inl err
      | Inr course_entity \<Rightarrow>
          (case course_from_entity course_entity of
             Inl err \<Rightarrow> Inl err
           | Inr course \<Rightarrow>
               (case course_entity of
                  None \<Rightarrow> Inl AttributeError
                | Some e \<Rightarrow>
                    add_lessons course
                      (fetch st (client_query LESSON_ENTITY (Some (entity_key e)))))))"

text \<open>\<open>load_courses\<close>: the records of the ordered query, as they are.\<close>

definition load_courses :: "store \<Rightarrow> entity list" where
  "load_courses st =
     (let q = client_query COURSE_ENTITY None;
          q = q\<lparr>q_order := [''-name'']\<rparr>
      in fold (\<lambda>course result. result @ [course]) (fetch st q) [])"

definition load_lesson :: "store \<Rightarrow> string \<Rightarrow> int \<Rightarrow> error + Lesson" where
  "load_lesson st code lid =
     (case load_key COURSE_ENTITY (StrId code) None of
        Inl err \<Rightarrow> Inl err
      | Inr parent_key \<Rightarrow>
          (case load_entity st LESSON_ENTITY (IntId lid) (Some parent_key) of
             Inl err \<Rightarrow> Inl err
           | Inr lesson_entity \<Rightarrow> lesson_from_entity lesson_entity True))"

subsection \<open>User operations\<close>

text \<open>
  \<open>load_user\<close> returns from inside its loop, so only the first record of the query is
  translated; with no record the result is \<open>None\<close>.
\<close>

definition load_user :: "store \<Rightarrow> string \<Rightarrow> string \<Rightarrow> error + User option" where
  "load_user st uname pwhash =
     (let q = client_query USER_ENTITY None;
          q = add_filter q ''username'' uname;
          q = add_filter q ''passwordhash'' pwhash
      in case fetch st q of
           [] \<Rightarrow> Inr None
         | user # _ \<Rightarrow>
             (case getitem user ''username'' of
                Inl err \<Rightarrow> Inl err
              | Inr u \<Rightarrow>
                  (case getitem user ''email'' of
                     Inl err \<Rightarrow> Inl err
                   | Inr m \<Rightarrow>
                       (case getitem user ''about'' of
                          Inl err \<Rightarrow> Inl err
                        | Inr a \<Rightarrow> Inr (Some \<lparr>username = u, email = m, about = a\<rparr>)))))"

definition load_about_user :: "store \<Rightarrow> string \<Rightarrow> error + string" where
  "load_about_user st uname =
     (case load_entity st USER_ENTITY (StrId uname) None of
        Inl err \<Rightarrow> Inl err
      | Inr None \<Rightarrow> Inr []
      | Inr (Some user) \<Rightarrow> (if entity_truthy user then getitem user ''about'' else Inr []))"

text \<open>
  The dictionary \<open>load_completions\<close> builds: course code to (lesson id to title), both
  levels in insertion order.
\<close>

type_synonym completions_dict = "(string option \<times> (int option \<times> string) list) list"

text \<open>One round of the loop of \<open>load_completions\<close>.\<close>

definition completion_step :: "store \<Rightarrow> completions_dict \<Rightarrow> key \<Rightarrow> error + completions_dict" where
  "completion_step st courses completion =
     (case client_get st completion of
        Inl err \<Rightarrow> Inl err
      | Inr lesson_entity \<Rightarrow>
          (case parent completion of
             None \<Rightarrow> Inl AttributeError
           | Some pk \<Rightarrow>
               (case client_get st pk of
                  Inl err \<Rightarrow> Inl err
                | Inr None \<Rightarrow> Inl AttributeError
                | Inr (Some course_entity) \<Rightarrow>
                    (let code = key_name (entity_key course_entity);
                         courses = (if map_of courses code = None
                                    then AList.update code [] courses else courses)
                     in case lesson_entity of
                          None \<Rightarrow> Inl TypeError
                        | Some le \<Rightarrow>
                            (case getitem le ''title'' of
                               Inl err \<Rightarrow> Inl err
                             | Inr title \<Rightarrow>
                                 (case map_of courses code of
                                    None \<Rightarrow> Inl KeyError
                                  | Some inner \<Rightarrow>
                                      Inr (AList.update code
                                             (AList.update (key_id completion) title inner)
                                             courses)))))))"

fun completions_loop :: "store \<Rightarrow> completions_dict \<Rightarrow> key list \<Rightarrow> error + completions_dict" where
  "completions_loop st courses [] = Inr courses"
| "completions_loop st courses (completion # rest) =
     (case completion_step st courses completion of
        Inl err \<Rightarrow> Inl err
      | Inr courses' \<Rightarrow> completions_loop st courses' rest)"

definition load_completions :: "store \<Rightarrow> string \<Rightarrow> error + completions_dict" where
  "load_completions st uname =
     (case load_entity st USER_ENTITY (StrId uname) None of
        Inl err \<Rightarrow> Inl err
      | Inr None \<Rightarrow> Inl TypeError
      | Inr (Some user_entity) \<Rightarrow>
          (case getitem_completions user_entity of
             Inl err \<Rightarrow> Inl err
           | Inr ks \<Rightarrow> completions_loop st [] ks))"

definition save_user :: "store \<Rightarrow> User \<Rightarrow> string \<Rightarrow> error + store" where
  "save_user st user pwhash =
     (case load_key USER_ENTITY (StrId (username user)) None of
        Inl err \<Rightarrow> Inl err
      | Inr k \<Rightarrow>
          (let entity = (k, empty_props);
               entity = setitem entity ''username'' (username user);
               entity = setitem entity ''email'' (email user);
               entity = setitem entity ''passwordhash'' pwhash;
               entity = setitem entity ''about'' [];
               entity = setitem_completions entity []
           in client_put st entity))"

definition save_about_user :: "store \<Rightarrow> string \<Rightarrow> string \<Rightarrow> error + store" where
  "save_about_user st uname abt =
     (case load_entity st USER_ENTITY (StrId uname) None of
        Inl err \<Rightarrow> Inl err
      | Inr None \<Rightarrow> Inl TypeError
      | Inr (Some user) \<Rightarrow> client_put st (setitem user ''about'' abt))"

definition save_completion :: "store \<Rightarrow> string \<Rightarrow> string \<Rightarrow> int \<Rightarrow> error + store" where
  "save_completion st uname coursecode lessonid =
     (case load_key COURSE_ENTITY (StrId coursecode) None of
        Inl err \<Rightarrow> Inl err
      | Inr course_key \<Rightarrow>
          (case load_key LESSON_ENTITY (IntId lessonid) (Some course_key) of
             Inl err \<Rightarrow> Inl err
           | Inr lesson_key \<Rightarrow>
               (case load_entity st USER_ENTITY (StrId uname) None of
                  Inl err \<Rightarrow> Inl err
                | Inr None \<Rightarrow> Inl TypeError
                | Inr (Some user_entity) \<Rightarrow>
                    (case getitem_completions user_entity of
                       Inl err \<Rightarrow> Inl err
                     | Inr ks \<Rightarrow>
                         (let completions_set = fold (\<lambda>completion s. set_add completion s) ks []
                          in if \<not> set_contains completions_set lesson_key
                             then client_put st (setitem_completions user_entity (ks @ [lesson_key]))
                             else client_put st user_entity)))))"

subsection \<open>The shape of stored records\<close>

text \<open>
  A store is well formed when it only holds records under complete keys (every
  identifier on the path is a non-zero number or a non-empty name) whose numbers fit 64
  bits, and each kind has the properties of its row in the record table: a user has
  \<open>username\<close>, \<open>email\<close>, \<open>passwordhash\<close>, \<open>about\<close> and a \<open>completions\<close> list in which
  every key fits 64 bits and no complete key stands twice; a course has \<open>name\<close> and
  \<open>description\<close>; a lesson has \<open>title\<close> and \<open>content\<close>. The store refuses empty names
  and zero ids, the client cannot send larger numbers, and every write of the module
  produces these shapes, so the save operations keep a store well formed (last section).
\<close>

definition has_props :: "string list \<Rightarrow> entity \<Rightarrow> bool" where
  "has_props names e = list_all (\<lambda>name. has_prop name e) names"

definition entity_ok :: "entity \<Rightarrow> bool" where
  "entity_ok e =
     (key_complete (fst e) \<and> key_fits (fst e)
      \<and> (kind (fst e) \<noteq> USER_ENTITY \<or>
           (has_props [''username'', ''email'', ''passwordhash'', ''about''] e
            \<and> (case completions (snd e) of
                  None \<Rightarrow> False
                | Some ks \<Rightarrow>
                    list_all key_fits ks \<and> distinct (filter (\<lambda>k. \<not> is_partial k) ks))))
      \<and> (kind (fst e) \<noteq> COURSE_ENTITY \<or> has_props [''name'', ''description''] e)
      \<and> (kind (fst e) \<noteq> LESSON_ENTITY \<or> has_props [''title'', ''content''] e))"

definition wf_store :: "store \<Rightarrow> bool" where
  "wf_store st = list_all entity_ok st"

text \<open>The key under which the record of a user, a course or a lesson is stored.\<close>

definition key_of_user :: "string \<Rightarrow> key" where
  "key_of_user uname = Key USER_ENTITY (StrId uname) None"

definition key_of_course :: "string \<Rightarrow> key" where
  "key_of_course code = Key COURSE_ENTITY (StrId code) None"

definition key_of_lesson :: "string \<Rightarrow> int \<Rightarrow> key" where
  "key_of_lesson code lid = Key LESSON_ENTITY (IntId lid) (Some (key_of_course code))"

text \<open>
  The key \<open>save_completion\<close> appends when it appends one: the lesson's key, or the
  kind-only lesson key when the lesson id is 0.
\<close>

definition appended_key :: "string \<Rightarrow> int \<Rightarrow> key" where
  "appended_key code lid =
     (if lid = 0 then Key LESSON_ENTITY NoneId None else key_of_lesson code lid)"

text \<open>
  The store with every stored password hash \<open>h\<close> replaced by \<open>f h\<close>, used to say
  that a result does not depend on the stored hashes.
\<close>

definition rehash :: "(string \<Rightarrow> string) \<Rightarrow> entity \<Rightarrow> entity" where
  "rehash f e =
     (fst e, (snd e)\<lparr>strs := map (\<lambda>(n, v). if n = ''passwordhash'' then (n, f v) else (n, v))
                               (strs (snd e))\<rparr>)"

text \<open>A run of \<open>save_completion\<close> calls for one user, stopping at the first exception.\<close>

fun save_completion_all :: "store \<Rightarrow> string \<Rightarrow> (string \<times> int) list \<Rightarrow> error + store" where
  "save_completion_all st uname [] = Inr st"
| "save_completion_all st uname ((code, lid) # rest) =
     (case save_completion st uname code lid of
        Inl err \<Rightarrow> Inl err
      | Inr st' \<Rightarrow> save_completion_all st' uname rest)"

text \<open>
  The entries of the two-level dictionary of \<open>load_completions\<close>, as (course code,
  lesson id, title) triples, and the title stored for a lesson.
\<close>

definition dict_entries :: "completions_dict \<Rightarrow> (string option \<times> int option \<times> string) list" where
  "dict_entries d = concat (map (\<lambda>(code, inner). map (Pair code) inner) d)"

text \<open>A dictionary has every key once, on both levels.\<close>

definition dict_ok :: "completions_dict \<Rightarrow> bool" where
  "dict_ok d = (distinct (map fst d) \<and> list_all (\<lambda>(code, inner). distinct (map fst inner)) d)"

definition stored_title :: "store \<Rightarrow> string \<Rightarrow> int \<Rightarrow> string" where
  "stored_title st code lid =
     (case lookup st (key_of_lesson code lid) of
        None \<Rightarrow> []
      | Some lesson_entity \<Rightarrow> prop_value ''title'' lesson_entity)"

subsection \<open>A small store\<close>

text \<open>
  One user, two courses and three lessons, as the seeding utility \<open>create_data\<close> lays
  them out.
\<close>

definition example_store :: store where
  "example_store =
     [(key_of_user ''u1'',
       \<lparr>strs = [(''username'', ''u1''), (''email'', ''e@x.com''),
                (''passwordhash'', ''hash1''), (''about'', ''hi'')],
        completions = Some []\<rparr>),
      (key_of_course ''C1'',
       \<lparr>strs = [(''code'', ''C1''), (''name'', ''First Course''), (''description'', ''d1'')],
        completions = None\<rparr>),
      (key_of_course ''C2'',
       \<lparr>strs = [(''code'', ''C2''), (''name'', ''Second Course''), (''description'', ''d2'')],
        completions = None\<rparr>),
      (key_of_lesson ''C1'' 1,
       \<lparr>strs = [(''title'', ''L1''), (''content'', ''c1'')], completions = None\<rparr>),
      (key_of_lesson ''C1'' 2,
       \<lparr>strs = [(''title'', ''L2''), (''content'', ''c2'')], completions = None\<rparr>),
      (key_of_lesson ''C2'' 1,
       \<lparr>strs = [(''title'', ''M1''), (''content'', ''c3'')], completions = None\<rparr>)]"

text \<open>The same store once user \<open>u1\<close> has completed lesson 2 of course \<open>C1\<close>.\<close>

definition example_after :: store where
  "example_after =
     AList.update (key_of_user ''u1'')
       \<lparr>strs = [(''username'', ''u1''), (''email'', ''e@x.com''),
                (''passwordhash'', ''hash1''), (''about'', ''hi'')],
        completions = Some [key_of_lesson ''C1'' 2]\<rparr>
       example_store"

text \<open>And once the same user has completed three lessons of two courses.\<close>

definition example_done :: store where
  "example_done =
     AList.update (key_of_user ''u1'')
       \<lparr>strs = [(''username'', ''u1''), (''email'', ''e@x.com''),
                (''passwordhash'', ''hash1''), (''about'', ''hi'')],
        completions = Some [key_of_lesson ''C1'' 2, key_of_lesson ''C2'' 1, key_of_lesson ''C1'' 1]\<rparr>
       example_store"

text \<open>
  And after one, and after two, calls of \<open>save_completion\<close> with lesson id 0, where the
  key is the kind-only lesson key.
\<close>

definition example_zero_once :: store where
  "example_zero_once =
     AList.update (key_of_user ''u1'')
       \<lparr>strs = [(''username'', ''u1''), (''email'', ''e@x.com''),
                (''passwordhash'', ''hash1''), (''about'', ''hi'')],
        completions = Some [Key LESSON_ENTITY NoneId None]\<rparr>
       example_store"

definition example_zero_twice :: store where
  "example_zero_twice =
     AList.update (key_of_user ''u1'')
       \<lparr>strs = [(''username'', ''u1''), (''email'', ''e@x.com''),
                (''passwordhash'', ''hash1''), (''about'', ''hi'')],
        completions = Some [Key LESSON_ENTITY NoneId None, Key LESSON_ENTITY NoneId None]\<rparr>
       example_store"

section \<open>Basic facts about keys and the store\<close>

lemma wf_example_store: "wf_store example_store"
  by code_simp

lemma example_user:
  "lookup example_store (key_of_user ''u1'') =
     Some (key_of_user ''u1'',
       \<lparr>strs = [(''username'', ''u1''), (''email'', ''e@x.com''),
                (''passwordhash'', ''hash1''), (''about'', ''hi'')],
        completions = Some []\<rparr>)"
  by code_simp

lemma example_nobody: "lookup example_store (key_of_user ''nobody'') = None"
  by code_simp

lemma client_key_root: "client_key kd i None = Inr (Key kd i None)"
  by (simp add: client_key_def)

lemma load_key_truthy: "truthy i \<Longrightarrow> load_key kd i p = client_key kd i p"
  by (simp add: load_key_def)

lemma load_key_falsy: "\<not> truthy i \<Longrightarrow> load_key kd i p = Inr (Key kd NoneId None)"
  by (simp add: load_key_def client_key_def)

lemma load_key_user:
  "load_key USER_ENTITY (StrId uname) None =
     Inr (if uname = [] then Key USER_ENTITY NoneId None else key_of_user uname)"
  by (simp add: load_key_def client_key_def key_of_user_def)

lemma load_key_course:
  "load_key COURSE_ENTITY (StrId code) None =
     Inr (if code = [] then Key COURSE_ENTITY NoneId None else key_of_course code)"
  by (simp add: load_key_def client_key_def key_of_course_def)

text \<open>The lesson key \<open>load_lesson\<close> and \<open>save_completion\<close> build, or the exception.\<close>

lemma load_key_lesson:
  "(case load_key COURSE_ENTITY (StrId code) None of
      Inl err \<Rightarrow> Inl err
    | Inr parent_key \<Rightarrow> load_key LESSON_ENTITY (IntId lid) (Some parent_key))
   = (if lid = 0 then Inr (Key LESSON_ENTITY NoneId None)
      else if code = [] then Inl ValueError
      else Inr (key_of_lesson code lid))"
  by (simp add: load_key_course load_key_def client_key_def is_partial_def key_of_lesson_def
      key_of_course_def)

lemma key_fits_names:
  "key_fits (key_of_user uname)" "key_fits (key_of_course code)"
  "key_fits (Key kd NoneId None)"
  "key_fits (key_of_lesson code lid) = int64_ok lid"
  by (simp_all add: key_of_user_def key_of_course_def key_of_lesson_def)

lemma lookup_Some: "lookup st k = Some e \<Longrightarrow> e \<in> set st \<and> fst e = k"
  by (auto simp: lookup_def split: option.splits dest: map_of_SomeD)

lemma wf_store_entity: "wf_store st \<Longrightarrow> e \<in> set st \<Longrightarrow> entity_ok e"
  by (simp add: wf_store_def list_all_iff)

text \<open>A well-formed store has no record under an incomplete key.\<close>

lemma wf_store_incomplete: "wf_store st \<Longrightarrow> \<not> key_complete k \<Longrightarrow> lookup st k = None"
proof (rule ccontr)
  assume wf: "wf_store st" and nc: "\<not> key_complete k" and "lookup st k \<noteq> None"
  then obtain e where "lookup st k = Some e" by auto
  then have "e \<in> set st" "fst e = k" using lookup_Some by blast+
  with wf have "key_complete k" using wf_store_entity entity_ok_def by blast
  with nc show False by simp
qed

text \<open>Nor under a key with a number outside 64 bits.\<close>

lemma wf_store_present_fits: "wf_store st \<Longrightarrow> lookup st k = Some e \<Longrightarrow> key_fits k"
proof -
  assume wf: "wf_store st" and "lookup st k = Some e"
  then have "e \<in> set st" "fst e = k" using lookup_Some by blast+
  with wf show "key_fits k" using wf_store_entity entity_ok_def by blast
qed

text \<open>What \<open>_load_entity\<close> returns for a user name.\<close>

lemma load_entity_user:
  "load_entity st USER_ENTITY (StrId uname) None =
     Inr (lookup st (if uname = [] then Key USER_ENTITY NoneId None else key_of_user uname))"
  by (simp add: load_entity_def load_key_user client_get_def key_fits_names)

lemma user_entity_about:
  assumes "wf_store st" "lookup st (Key USER_ENTITY i p) = Some e"
  shows "\<exists>a. map_of (strs (snd e)) ''about'' = Some a \<and> entity_truthy e"
proof -
  from assms(2) have "e \<in> set st" "fst e = Key USER_ENTITY i p" using lookup_Some by blast+
  with assms(1) have "has_props [''username'', ''email'', ''passwordhash'', ''about''] e"
    using wf_store_entity[of st e] by (simp add: entity_ok_def)
  then obtain a where a: "map_of (strs (snd e)) ''about'' = Some a"
    by (auto simp: has_props_def has_prop_def)
  then have "strs (snd e) \<noteq> []" by auto
  with a show ?thesis by (simp add: entity_truthy_def)
qed

section \<open>Key construction with a false identifier\<close>

text \<open>
  C10. When the identifier is false (\<open>None\<close>, \<open>0\<close> or the empty string), \<open>_load_key\<close>
  builds the key of the kind alone, without identifier and without parent. So
  \<open>load_lesson(code, 0)\<close> reads under the kind-only lesson key, whatever the course
  code, and \<open>load_about_user('')\<close> reads under the kind-only user key; neither is the key
  of the record that was asked for.
\<close>

theorem load_key_falsy_kind_only:
  "(\<not> truthy entity_id \<longrightarrow>
      load_key entity_type entity_id parent_key = Inr (Key entity_type NoneId None))
   \<and> load_lesson st code 0 = lesson_from_entity (lookup st (Key LESSON_ENTITY NoneId None)) True
   \<and> Key LESSON_ENTITY NoneId None \<noteq> key_of_lesson code 0
   \<and> load_about_user st [] =
       (case lookup st (Key USER_ENTITY NoneId None) of
          None \<Rightarrow> Inr []
        | Some user \<Rightarrow> if entity_truthy user then getitem user ''about'' else Inr [])
   \<and> Key USER_ENTITY NoneId None \<noteq> key_of_user []"
proof -
  have "load_lesson st code 0 = lesson_from_entity (lookup st (Key LESSON_ENTITY NoneId None)) True"
    by (simp add: load_lesson_def load_key_course load_entity_def load_key_falsy client_get_def)
  moreover have "load_about_user st [] =
       (case lookup st (Key USER_ENTITY NoneId None) of
          None \<Rightarrow> Inr []
        | Some user \<Rightarrow> if entity_truthy user then getitem user ''about'' else Inr [])"
    by (simp add: load_about_user_def load_entity_user)
  ultimately show ?thesis
    by (simp add: load_key_falsy key_of_lesson_def key_of_user_def)
qed

theorem load_key_falsy_kind_only_witness:
  "\<not> truthy (IntId 0) \<and> \<not> truthy (StrId []) \<and> \<not> truthy NoneId
   \<and> load_key LESSON_ENTITY (IntId 0) (Some (key_of_course ''C1'')) = Inr (Key LESSON_ENTITY NoneId None)
   \<and> load_key USER_ENTITY (StrId []) None = Inr (Key USER_ENTITY NoneId None)
   \<and> load_key COURSE_ENTITY NoneId None = Inr (Key COURSE_ENTITY NoneId None)
   \<and> load_lesson example_store ''C1'' 0 = Inl AttributeError
   \<and> load_about_user example_store [] = Inr []"
proof -
  have g1: "lookup example_store (Key LESSON_ENTITY NoneId None) = None"
    by (rule wf_store_incomplete [OF wf_example_store]) simp
  have g2: "lookup example_store (Key USER_ENTITY NoneId None) = None"
    by (rule wf_store_incomplete [OF wf_example_store]) simp
  show ?thesis
    using load_key_falsy_kind_only
      [of "IntId 0" LESSON_ENTITY "Some (key_of_course ''C1'')" example_store "''C1''"]
      load_key_falsy_kind_only [of "StrId []" USER_ENTITY None example_store "''C1''"]
      load_key_falsy_kind_only [of NoneId COURSE_ENTITY None example_store "''C1''"]
    by (simp add: g1 g2 lesson_from_entity_def)
qed

section \<open>The lenient read of the about text\<close>

text \<open>
  C7. For every user name, \<open>load_about_user\<close> returns the \<open>about\<close> property of the record
  stored for that user name when there is one, and the empty string, without an error,
  when there is none.
\<close>

theorem load_about_user_lenient:
  assumes "wf_store st"
  shows "(\<forall>e. lookup st (key_of_user uname) = Some e \<longrightarrow>
            (\<exists>a. map_of (strs (snd e)) ''about'' = Some a \<and> load_about_user st uname = Inr a))
         \<and> (lookup st (key_of_user uname) = None \<longrightarrow> load_about_user st uname = Inr [])"
proof (cases "uname = []")
  case True
  then have "\<not> key_complete (key_of_user uname)" by (simp add: key_of_user_def)
  then have 1: "lookup st (key_of_user uname) = None" using assms wf_store_incomplete by blast
  have "lookup st (Key USER_ENTITY NoneId None) = None"
    using assms wf_store_incomplete by simp
  then have "load_about_user st uname = Inr []"
    using True by (simp add: load_about_user_def load_entity_user)
  with 1 show ?thesis by simp
next
  case False
  show ?thesis
  proof (cases "lookup st (key_of_user uname)")
    case None
    then show ?thesis using False by (simp add: load_about_user_def load_entity_user)
  next
    case (Some e)
    then obtain a where "map_of (strs (snd e)) ''about'' = Some a" "entity_truthy e"
      using user_entity_about[OF assms] unfolding key_of_user_def by blast
    then show ?thesis
      using Some False by (simp add: load_about_user_def load_entity_user getitem_def)
  qed
qed

theorem load_about_user_lenient_witness:
  "wf_store example_store
   \<and> load_about_user example_store ''u1'' = Inr ''hi''
   \<and> load_about_user example_store ''nobody'' = Inr []"
  using load_about_user_lenient [OF wf_example_store, of "''u1''"]
    load_about_user_lenient [OF wf_example_store, of "''nobody''"]
  by (simp add: wf_example_store example_user example_nobody)

section \<open>Operations that assume their record exists\<close>

text \<open>The key built by \<open>_load_key\<close> finds nothing when the plain key finds nothing.\<close>

lemma load_entity_absent:
  assumes "wf_store st" "lookup st (Key kd (StrId name) None) = None"
  shows "load_entity st kd (StrId name) None = Inr None"
proof (cases "name = []")
  case True
  have "\<not> key_complete (Key kd NoneId None)" by simp
  then have "lookup st (Key kd NoneId None) = None" using assms(1) wf_store_incomplete by blast
  then show ?thesis
    using True by (simp add: load_entity_def load_key_falsy client_get_def)
next
  case False
  then show ?thesis
    using assms(2) by (simp add: load_entity_def load_key_truthy client_key_root client_get_def)
qed

text \<open>What \<open>load_lesson\<close> does when the lesson's record is absent.\<close>

lemma load_lesson_absent:
  assumes "wf_store st" "lookup st (key_of_lesson code lid) = None"
  shows "load_lesson st code lid =
           Inl (if lid \<noteq> 0 \<and> (code = [] \<or> \<not> int64_ok lid) then ValueError else AttributeError)"
proof -
  have none: "lookup st (Key LESSON_ENTITY NoneId None) = None"
    using assms(1) wf_store_incomplete by simp
  have "load_lesson st code lid =
          (case (if lid = 0 then Inr (Key LESSON_ENTITY NoneId None)
                 else if code = [] then Inl ValueError
                 else Inr (key_of_lesson code lid)) of
             Inl err \<Rightarrow> Inl err
           | Inr k \<Rightarrow>
               (case client_get st k of
                  Inl err \<Rightarrow> Inl err
                | Inr lesson_entity \<Rightarrow> lesson_from_entity lesson_entity True))"
    unfolding load_key_lesson [symmetric]
    by (simp add: load_lesson_def load_entity_def split: sum.splits)
  then show ?thesis
    using none assms(2) by (simp add: client_get_def lesson_from_entity_def key_fits_names)
qed

lemma example_absent:
  "lookup example_store (key_of_course ''C9'') = None"
  "lookup example_store (key_of_lesson ''C1'' 7) = None"
  "lookup example_store (key_of_lesson [] 7) = None"
  by code_simp+

text \<open>
  C6. \<open>load_course\<close> for a course code with no record, \<open>load_lesson\<close> for a course code
  and lesson id with no record, and \<open>save_about_user\<close> for a user name with no record
  all end in an error, never in an empty or null result: the exception raised when
  \<open>None\<close> is used as a record, or, for \<open>load_lesson\<close> with an empty course code or a
  lesson id outside 64 bits, the client's \<open>ValueError\<close>.
\<close>

theorem not_found_raises:
  assumes "wf_store st"
  shows "(lookup st (key_of_course code) = None \<longrightarrow> load_course st code = Inl AttributeError)
       \<and> (lookup st (key_of_lesson code lid) = None \<longrightarrow>
            load_lesson st code lid =
              Inl (if lid \<noteq> 0 \<and> (code = [] \<or> \<not> int64_ok lid) then ValueError
                   else AttributeError))
       \<and> (lookup st (key_of_user uname) = None \<longrightarrow> save_about_user st uname abt = Inl TypeError)"
proof (intro conjI impI)
  assume "lookup st (key_of_course code) = None"
  then have "load_entity st COURSE_ENTITY (StrId code) None = Inr None"
    using load_entity_absent [OF assms] by (simp add: key_of_course_def)
  then show "load_course st code = Inl AttributeError"
    by (simp add: load_course_def course_from_entity_def)
next
  assume "lookup st (key_of_lesson code lid) = None"
  then show "load_lesson st code lid =
              Inl (if lid \<noteq> 0 \<and> (code = [] \<or> \<not> int64_ok lid) then ValueError
                   else AttributeError)"
    by (rule load_lesson_absent [OF assms])
next
  assume "lookup st (key_of_user uname) = None"
  then have "load_entity st USER_ENTITY (StrId uname) None = Inr None"
    using load_entity_absent [OF assms] by (simp add: key_of_user_def)
  then show "save_about_user st uname abt = Inl TypeError"
    by (simp add: save_about_user_def)
qed

theorem not_found_raises_witness:
  "wf_store example_store
   \<and> lookup example_store (key_of_course ''C9'') = None
   \<and> load_course example_store ''C9'' = Inl AttributeError
   \<and> lookup example_store (key_of_lesson ''C1'' 7) = None
   \<and> load_lesson example_store ''C1'' 7 = Inl AttributeError
   \<and> lookup example_store (key_of_lesson [] 7) = None
   \<and> load_lesson example_store [] 7 = Inl ValueError
   \<and> lookup example_store (key_of_user ''nobody'') = None
   \<and> save_about_user example_store ''nobody'' ''text'' = Inl TypeError"
  using not_found_raises [OF wf_example_store, of "''C9''" 7 "''nobody''" "''text''"]
    not_found_raises [OF wf_example_store, of "''C1''" 7 "''nobody''" "''text''"]
    not_found_raises [OF wf_example_store, of "[]" 7 "''nobody''" "''text''"]
  by (simp add: wf_example_store example_absent example_nobody int64_ok_def)

section \<open>Authentication by equality of user name and password hash\<close>

lemma fetch_no_order:
  "fetch st (add_filter (add_filter (client_query kd None) n1 v1) n2 v2) =
     filter (\<lambda>e. kind (fst e) = kd \<and> map_of (strs (snd e)) n1 = Some v1
                 \<and> map_of (strs (snd e)) n2 = Some v2) st"
proof -
  have "matches (add_filter (add_filter (client_query kd None) n1 v1) n2 v2) =
          (\<lambda>e. kind (fst e) = kd \<and> map_of (strs (snd e)) n1 = Some v1
                 \<and> map_of (strs (snd e)) n2 = Some v2)"
    by (rule ext) (simp add: matches_def add_filter_def client_query_def)
  then show ?thesis by (simp add: fetch_def add_filter_def client_query_def)
qed

lemma find_filter_Nil: "find P xs = None \<Longrightarrow> filter P xs = []"
  by (induction xs) (auto split: if_splits)

lemma find_filter_Cons: "find P xs = Some x \<Longrightarrow> \<exists>ys. filter P xs = x # ys"
  by (induction xs) (auto split: if_splits)

lemma user_entity_props:
  assumes "wf_store st" "e \<in> set st" "kind (fst e) = USER_ENTITY"
  shows "\<exists>m a. map_of (strs (snd e)) ''email'' = Some m \<and> map_of (strs (snd e)) ''about'' = Some a"
proof -
  have "has_props [''username'', ''email'', ''passwordhash'', ''about''] e"
    using wf_store_entity[OF assms(1,2)] assms(3) by (simp add: entity_ok_def)
  then show ?thesis by (auto simp: has_props_def has_prop_def)
qed

lemma example_find_ok:
  "find (\<lambda>e. kind (fst e) = USER_ENTITY
             \<and> map_of (strs (snd e)) ''username'' = Some ''u1''
             \<and> map_of (strs (snd e)) ''passwordhash'' = Some ''hash1'') example_store
   = Some (key_of_user ''u1'',
       \<lparr>strs = [(''username'', ''u1''), (''email'', ''e@x.com''),
                (''passwordhash'', ''hash1''), (''about'', ''hi'')],
        completions = Some []\<rparr>)"
  by code_simp

lemma example_find_wrong:
  "find (\<lambda>e. kind (fst e) = USER_ENTITY
             \<and> map_of (strs (snd e)) ''username'' = Some ''u1''
             \<and> map_of (strs (snd e)) ''passwordhash'' = Some ''wronghash'') example_store
   = None"
  by code_simp

text \<open>
  C2. \<open>load_user\<close> returns the user built from the first stored user record whose
  \<open>username\<close> equals the given name and whose \<open>passwordhash\<close> equals the given hash, and
  \<open>None\<close> when no record matches both; so a right name with a wrong hash gives \<open>None\<close>.
\<close>

theorem load_user_both_match:
  assumes "wf_store st"
  shows "case find (\<lambda>e. kind (fst e) = USER_ENTITY
                      \<and> map_of (strs (snd e)) ''username'' = Some uname
                      \<and> map_of (strs (snd e)) ''passwordhash'' = Some pwhash) st of
           None \<Rightarrow> load_user st uname pwhash = Inr None
         | Some e \<Rightarrow>
             (\<exists>m a. map_of (strs (snd e)) ''email'' = Some m
                  \<and> map_of (strs (snd e)) ''about'' = Some a
                  \<and> load_user st uname pwhash = Inr (Some \<lparr>username = uname, email = m, about = a\<rparr>))"
proof (cases "find (\<lambda>e. kind (fst e) = USER_ENTITY
                      \<and> map_of (strs (snd e)) ''username'' = Some uname
                      \<and> map_of (strs (snd e)) ''passwordhash'' = Some pwhash) st")
  case None
  then show ?thesis
    by (simp add: load_user_def Let_def fetch_no_order find_filter_Nil)
next
  case (Some e)
  then have e: "e \<in> set st" "kind (fst e) = USER_ENTITY"
    "map_of (strs (snd e)) ''username'' = Some uname"
    by (auto simp: find_Some_iff)
  obtain m a where ma: "map_of (strs (snd e)) ''email'' = Some m" "map_of (strs (snd e)) ''about'' = Some a"
    using user_entity_props [OF assms e(1,2)] by blast
  obtain ys where "filter (\<lambda>e. kind (fst e) = USER_ENTITY
                      \<and> map_of (strs (snd e)) ''username'' = Some uname
                      \<and> map_of (strs (snd e)) ''passwordhash'' = Some pwhash) st = e # ys"
    using find_filter_Cons [OF Some] by blast
  then have "load_user st uname pwhash = Inr (Some \<lparr>username = uname, email = m, about = a\<rparr>)"
    using e(3) ma by (simp add: load_user_def Let_def fetch_no_order getitem_def)
  then show ?thesis using Some ma by simp
qed

theorem load_user_both_match_witness:
  "wf_store example_store
   \<and> load_user example_store ''u1'' ''hash1''
       = Inr (Some \<lparr>username = ''u1'', email = ''e@x.com'', about = ''hi''\<rparr>)
   \<and> load_user example_store ''u1'' ''wronghash'' = Inr None"
  using load_user_both_match [OF wf_example_store, of "''u1''" "''hash1''"]
    load_user_both_match [OF wf_example_store, of "''u1''" "''wronghash''"]
  by (simp add: wf_example_store example_find_ok example_find_wrong)

section \<open>Saving a user\<close>

lemma lookup_update:
  "lookup (AList.update k p st) k' = (if k' = k then Some (k, p) else lookup st k')"
  by (simp add: lookup_def update_conv')

lemma client_put_complete:
  "\<not> is_partial (fst e) \<Longrightarrow> put_fits e \<Longrightarrow> client_put st e = Inr (AList.update (fst e) (snd e) st)"
  by (simp add: client_put_def)

lemma save_user_put:
  "save_user st user pwhash =
     client_put st
       (if username user = [] then Key USER_ENTITY NoneId None else key_of_user (username user),
        \<lparr>strs = [(''username'', username user), (''email'', email user),
                 (''passwordhash'', pwhash), (''about'', [])],
         completions = Some []\<rparr>)"
  by (simp add: save_user_def load_key_user setitem_def setitem_completions_def empty_props_def)

text \<open>
  C3, as amended. For a user with a non-empty user name, \<open>save_user\<close> succeeds and leaves
  under the key of that user name a record with exactly \<open>username\<close>, \<open>email\<close>,
  \<open>passwordhash\<close>, an empty \<open>about\<close> and an empty \<open>completions\<close> list, whatever was
  stored there before; no other record changes, and \<open>load_about_user\<close> right afterwards
  returns the empty string.
\<close>

theorem save_user_full_replace:
  assumes "username user \<noteq> []"
  shows "\<exists>st'. save_user st user pwhash = Inr st'
         \<and> lookup st' (key_of_user (username user)) =
             Some (key_of_user (username user),
               \<lparr>strs = [(''username'', username user), (''email'', email user),
                        (''passwordhash'', pwhash), (''about'', [])],
                completions = Some []\<rparr>)
         \<and> (\<forall>k. k \<noteq> key_of_user (username user) \<longrightarrow> lookup st' k = lookup st k)
         \<and> load_about_user st' (username user) = Inr []"
proof -
  let ?p = "\<lparr>strs = [(''username'', username user), (''email'', email user),
                      (''passwordhash'', pwhash), (''about'', [])],
              completions = Some []\<rparr>"
  let ?st' = "AList.update (key_of_user (username user)) ?p st"
  have "\<not> is_partial (key_of_user (username user))"
    using assms by (simp add: is_partial_def key_of_user_def)
  moreover have "put_fits (key_of_user (username user), ?p)" by (simp add: put_fits_def key_fits_names)
  ultimately have st': "save_user st user pwhash = Inr ?st'"
    using assms client_put_complete [of "(key_of_user (username user), ?p)" st]
    by (simp add: save_user_put)
  have g: "lookup ?st' (key_of_user (username user)) = Some (key_of_user (username user), ?p)"
    by (simp add: lookup_update)
  have "load_about_user ?st' (username user) = Inr []"
    using assms by (simp add: load_about_user_def load_entity_user g entity_truthy_def getitem_def)
  then show ?thesis using st' g by (simp add: lookup_update)
qed

theorem save_user_full_replace_witness:
  "username \<lparr>username = ''u1'', email = ''new@x.com'', about = ''ignored''\<rparr> \<noteq> []
   \<and> (\<exists>st'. save_user example_store \<lparr>username = ''u1'', email = ''new@x.com'', about = ''ignored''\<rparr> ''hash2''
          = Inr st'
        \<and> lookup st' (key_of_user ''u1'')
            = Some (key_of_user ''u1'',
                \<lparr>strs = [(''username'', ''u1''), (''email'', ''new@x.com''),
                         (''passwordhash'', ''hash2''), (''about'', [])],
                 completions = Some []\<rparr>)
        \<and> load_about_user st' ''u1'' = Inr [])"
  using save_user_full_replace [of "\<lparr>username = ''u1'', email = ''new@x.com'', about = ''ignored''\<rparr>" example_store "''hash2''"]
  by auto

text \<open>
  C3 as stated, for every user object, fails for the empty user name: \<open>_load_key\<close> then
  builds the kind-only key, the store assigns a number, and no record is keyed by the
  user name.
\<close>

theorem save_user_empty_username_counterexample:
  "save_user [] \<lparr>username = [], email = ''e@x.com'', about = []\<rparr> ''hash1''
     = Inr [(Key USER_ENTITY (IntId 1) None,
          \<lparr>strs = [(''username'', []), (''email'', ''e@x.com''),
                   (''passwordhash'', ''hash1''), (''about'', [])],
           completions = Some []\<rparr>)]
   \<and> lookup [(Key USER_ENTITY (IntId 1) None,
          \<lparr>strs = [(''username'', []), (''email'', ''e@x.com''),
                   (''passwordhash'', ''hash1''), (''about'', [])],
           completions = Some []\<rparr>)] (key_of_user []) = None"
  by (simp add: save_user_put client_put_def put_fits_def is_partial_def fresh_id_def
      List.map_filter_simps lookup_def key_of_user_def)

section \<open>The password hash stays in the store\<close>

lemma map_of_rehash:
  "map_of (map (\<lambda>(n, v). if n = h then (n, f v) else (n, v)) xs) n
     = (if n = h then map_option f (map_of xs n) else map_of xs n)"
  by (induction xs) auto

lemma getitem_rehash:
  "n \<noteq> ''passwordhash'' \<Longrightarrow> getitem (rehash f e) n = getitem e n"
  by (simp add: getitem_def rehash_def map_of_rehash)

lemma fetch_rehash:
  assumes "inj f"
  shows "fetch (map (rehash f) st)
           (add_filter (add_filter (client_query USER_ENTITY None) ''username'' uname)
              ''passwordhash'' (f pwhash))
         = map (rehash f)
             (fetch st (add_filter (add_filter (client_query USER_ENTITY None) ''username'' uname)
                ''passwordhash'' pwhash))"
proof -
  have "\<And>e. (kind (fst (rehash f e)) = USER_ENTITY
            \<and> map_of (strs (snd (rehash f e))) ''username'' = Some uname
            \<and> map_of (strs (snd (rehash f e))) ''passwordhash'' = Some (f pwhash))
        = (kind (fst e) = USER_ENTITY
            \<and> map_of (strs (snd e)) ''username'' = Some uname
            \<and> map_of (strs (snd e)) ''passwordhash'' = Some pwhash)"
    using assms by (auto simp: rehash_def map_of_rehash dest: injD)
  then show ?thesis
    by (simp add: fetch_no_order filter_map comp_def)
qed

lemma example_rehash:
  "load_user (map (rehash (\<lambda>h. CHR ''x'' # h)) example_store) ''u1'' ''xhash1''
     = Inr (Some \<lparr>username = ''u1'', email = ''e@x.com'', about = ''hi''\<rparr>)"
  by code_simp

text \<open>
  C4. The user object \<open>load_user\<close> returns is built from the \<open>username\<close>, \<open>email\<close> and
  \<open>about\<close> properties of a stored record and from nothing else: it has no password
  hash attribute, and it stays the same when every stored hash (and the hash presented)
  is replaced by another value.
\<close>

theorem load_user_hides_passwordhash:
  assumes "inj f"
  shows "load_user (map (rehash f) st) uname (f pwhash) = load_user st uname pwhash
       \<and> (\<forall>usr. load_user st uname pwhash = Inr (Some usr) \<longrightarrow>
             (\<exists>e\<in>set st. getitem e ''username'' = Inr (username usr)
                        \<and> getitem e ''email'' = Inr (email usr)
                        \<and> getitem e ''about'' = Inr (about usr)))"
proof
  let ?q = "add_filter (add_filter (client_query USER_ENTITY None) ''username'' uname)
              ''passwordhash'' pwhash"
  show "load_user (map (rehash f) st) uname (f pwhash) = load_user st uname pwhash"
  proof (cases "fetch st ?q")
    case Nil
    then show ?thesis by (simp add: load_user_def Let_def fetch_rehash [OF assms])
  next
    case (Cons e es)
    then show ?thesis
      by (simp add: load_user_def Let_def fetch_rehash [OF assms] getitem_rehash cong: sum.case_cong)
  qed
  show "\<forall>usr. load_user st uname pwhash = Inr (Some usr) \<longrightarrow>
             (\<exists>e\<in>set st. getitem e ''username'' = Inr (username usr)
                        \<and> getitem e ''email'' = Inr (email usr)
                        \<and> getitem e ''about'' = Inr (about usr))"
  proof (intro allI impI)
    fix usr assume r: "load_user st uname pwhash = Inr (Some usr)"
    then obtain e es where f: "fetch st ?q = e # es"
      by (cases "fetch st ?q") (auto simp: load_user_def Let_def)
    then have "e \<in> set (fetch st ?q)" by simp
    then have "e \<in> set st" by (simp add: fetch_no_order)
    moreover have "getitem e ''username'' = Inr (username usr)
                        \<and> getitem e ''email'' = Inr (email usr)
                        \<and> getitem e ''about'' = Inr (about usr)"
      using r f by (auto simp: load_user_def Let_def split: sum.splits)
    ultimately show "\<exists>e\<in>set st. getitem e ''username'' = Inr (username usr)
                        \<and> getitem e ''email'' = Inr (email usr)
                        \<and> getitem e ''about'' = Inr (about usr)" by blast
  qed
qed

theorem load_user_hides_passwordhash_witness:
  "inj (\<lambda>h. CHR ''x'' # h)
   \<and> load_user (map (rehash (\<lambda>h. CHR ''x'' # h)) example_store) ''u1'' (CHR ''x'' # ''hash1'')
       = Inr (Some \<lparr>username = ''u1'', email = ''e@x.com'', about = ''hi''\<rparr>)
   \<and> load_user example_store ''u1'' ''hash1''
       = Inr (Some \<lparr>username = ''u1'', email = ''e@x.com'', about = ''hi''\<rparr>)"
proof -
  have i: "inj (\<lambda>h. CHR ''x'' # h)" by (simp add: inj_def)
  show ?thesis
    using load_user_hides_passwordhash [OF i, of example_store "''u1''" "''hash1''"] i example_rehash
    by simp
qed

section \<open>Listing the courses\<close>

lemma fold_snoc: "fold (\<lambda>x r. r @ [x]) xs acc = acc @ xs"
  by (induction xs arbitrary: acc) auto

lemma load_courses_eq:
  "load_courses st =
     rev (sort_key (prop_value ''name'')
            (filter (has_prop ''name'') (filter (\<lambda>e. kind (fst e) = COURSE_ENTITY) st)))"
proof -
  have "matches (client_query COURSE_ENTITY None\<lparr>q_order := [''-name'']\<rparr>) =
          (\<lambda>e. kind (fst e) = COURSE_ENTITY)"
    by (rule ext) (simp add: matches_def client_query_def)
  then show ?thesis
    by (simp add: load_courses_def Let_def fold_snoc fetch_def client_query_def)
qed

lemma course_has_name:
  assumes "wf_store st"
  shows "filter (has_prop ''name'') (filter (\<lambda>e. kind (fst e) = COURSE_ENTITY) st)
           = filter (\<lambda>e. kind (fst e) = COURSE_ENTITY) st"
proof -
  have "has_prop ''name'' e" if "e \<in> set (filter (\<lambda>e. kind (fst e) = COURSE_ENTITY) st)" for e
  proof -
    from that have "e \<in> set st" "kind (fst e) = COURSE_ENTITY" by auto
    then have "has_props [''name'', ''description''] e"
      using wf_store_entity [OF assms] by (auto simp: entity_ok_def)
    then show ?thesis by (simp add: has_props_def)
  qed
  then show ?thesis by (intro filter_True) blast
qed

lemma sorted_desc_rev_sort_key:
  "sorted_wrt (\<lambda>a b. f b \<le> f a) (rev (sort_key f xs))"
proof -
  have "sorted (map f (sort_key f xs))" by (rule sorted_sort_key)
  then have "sorted_wrt (\<lambda>a b. f a \<le> f b) (sort_key f xs)" by (simp add: sorted_map)
  then show ?thesis by (simp add: sorted_wrt_rev)
qed

lemma example_courses:
  "load_courses example_store =
     [(key_of_course ''C2'',
       \<lparr>strs = [(''code'', ''C2''), (''name'', ''Second Course''), (''description'', ''d2'')],
        completions = None\<rparr>),
      (key_of_course ''C1'',
       \<lparr>strs = [(''code'', ''C1''), (''name'', ''First Course''), (''description'', ''d1'')],
        completions = None\<rparr>)]"
  by code_simp

text \<open>
  C8. \<open>load_courses\<close> returns the store's own records, untranslated: exactly the records
  of kind course, each as often as it is stored, ordered by their \<open>name\<close> property in
  descending lexicographic order.
\<close>

theorem load_courses_raw_descending:
  assumes "wf_store st"
  shows "mset (load_courses st) = mset (filter (\<lambda>e. kind (fst e) = COURSE_ENTITY) st)
       \<and> sorted_wrt (\<lambda>a b. prop_value ''name'' b \<le> prop_value ''name'' a) (load_courses st)"
  unfolding load_courses_eq course_has_name [OF assms]
  by (simp add: sorted_desc_rev_sort_key)

theorem load_courses_raw_descending_witness:
  "wf_store example_store
   \<and> load_courses example_store =
     [(key_of_course ''C2'',
       \<lparr>strs = [(''code'', ''C2''), (''name'', ''Second Course''), (''description'', ''d2'')],
        completions = None\<rparr>),
      (key_of_course ''C1'',
       \<lparr>strs = [(''code'', ''C1''), (''name'', ''First Course''), (''description'', ''d1'')],
        completions = None\<rparr>)]
   \<and> mset (load_courses example_store) = mset (filter (\<lambda>e. kind (fst e) = COURSE_ENTITY) example_store)
   \<and> sorted_wrt (\<lambda>a b. prop_value ''name'' b \<le> prop_value ''name'' a) (load_courses example_store)"
  using load_courses_raw_descending [OF wf_example_store] wf_example_store example_courses
  by simp

section \<open>Recording a completion\<close>

lemma list_ex_key_eq: "list_ex (key_eq k) s \<longleftrightarrow> \<not> is_partial k \<and> k \<in> set s"
  by (auto simp: list_ex_iff key_eq_def)

lemma set_fold_set_add: "set (fold (\<lambda>c s. set_add c s) ks s) = set s \<union> set ks"
  by (induction ks arbitrary: s) (auto simp: set_add_def list_ex_key_eq)

text \<open>The membership test of \<open>save_completion\<close>: only a complete key is ever found.\<close>

lemma set_contains_fold:
  "set_contains (fold (\<lambda>c s. set_add c s) ks []) k \<longleftrightarrow> \<not> is_partial k \<and> k \<in> set ks"
  by (simp add: set_contains_def list_ex_key_eq set_fold_set_add)

lemma user_key_present_nonempty:
  assumes "wf_store st" "lookup st (key_of_user uname) = Some e"
  shows "uname \<noteq> []"
proof
  assume "uname = []"
  then have "\<not> key_complete (key_of_user uname)" by (simp add: key_of_user_def)
  then have "lookup st (key_of_user uname) = None" using assms(1) wf_store_incomplete by blast
  with assms(2) show False by simp
qed

lemma user_entity_completions:
  assumes "wf_store st" "lookup st (key_of_user uname) = Some e"
  shows "\<exists>ks. completions (snd e) = Some ks \<and> list_all key_fits ks
            \<and> distinct (filter (\<lambda>k. \<not> is_partial k) ks)"
proof -
  from assms(2) have "e \<in> set st" "fst e = key_of_user uname" using lookup_Some by blast+
  then have "case completions (snd e) of None \<Rightarrow> False
             | Some ks \<Rightarrow> list_all key_fits ks \<and> distinct (filter (\<lambda>k. \<not> is_partial k) ks)"
    using wf_store_entity [OF assms(1), of e] by (simp add: entity_ok_def key_of_user_def)
  then show ?thesis by (cases "completions (snd e)") auto
qed

lemma key_fits_appended_key: "key_fits (appended_key code lid) \<longleftrightarrow> lid = 0 \<or> int64_ok lid"
  by (simp add: appended_key_def key_fits_names)

text \<open>
  What one call of \<open>save_completion\<close> does to a store that holds the user's record: the
  exception of \<open>client.key\<close>, the exception of \<open>client.put\<close>, or the store with the
  user's list as it was or one key longer.
\<close>

lemma save_completion_put:
  assumes "uname \<noteq> []" "lookup st (key_of_user uname) = Some e" "completions (snd e) = Some ks"
  shows "save_completion st uname code lid =
           (if lid \<noteq> 0 \<and> code = [] then Inl ValueError
            else if list_all key_fits
                      (if lid \<noteq> 0 \<and> key_of_lesson code lid \<in> set ks then ks
                       else ks @ [appended_key code lid])
            then Inr (AList.update (key_of_user uname)
                       ((snd e)\<lparr>completions :=
                          Some (if lid \<noteq> 0 \<and> key_of_lesson code lid \<in> set ks then ks
                                else ks @ [appended_key code lid])\<rparr>) st)
            else Inl ValueError)"
proof (cases "lid \<noteq> 0 \<and> code = []")
  case True
  have "(case load_key COURSE_ENTITY (StrId code) None of
           Inl err \<Rightarrow> Inl err
         | Inr parent_key \<Rightarrow> load_key LESSON_ENTITY (IntId lid) (Some parent_key)) = Inl ValueError"
    using True by (simp add: load_key_lesson)
  then have "save_completion st uname code lid = Inl ValueError"
    by (auto simp: save_completion_def split: sum.splits)
  with True show ?thesis by simp
next
  case False
  have lk: "(case load_key COURSE_ENTITY (StrId code) None of
           Inl err \<Rightarrow> Inl err
         | Inr parent_key \<Rightarrow> load_key LESSON_ENTITY (IntId lid) (Some parent_key))
        = Inr (appended_key code lid)"
    using False by (auto simp: load_key_lesson appended_key_def)
  have fe: "fst e = key_of_user uname" using assms(2) lookup_Some by blast
  then have np: "\<not> is_partial (fst e)" using assms(1) by (simp add: is_partial_def key_of_user_def)
  have fits: "put_fits (fst e, (snd e)\<lparr>completions := Some xs\<rparr>) = list_all key_fits xs" for xs
    by (simp add: put_fits_def fe key_fits_names)
  have same: "(snd e)\<lparr>completions := Some ks\<rparr> = snd e" using assms(3) by simp
  have e: "e = (fst e, snd e)" by simp
  have found: "set_contains (fold (\<lambda>c s. set_add c s) ks []) (appended_key code lid)
                 \<longleftrightarrow> lid \<noteq> 0 \<and> key_of_lesson code lid \<in> set ks"
    by (auto simp: set_contains_fold appended_key_def is_partial_def key_of_lesson_def)
  have body: "save_completion st uname code lid =
          (if \<not> set_contains (fold (\<lambda>c s. set_add c s) ks []) (appended_key code lid)
           then client_put st (setitem_completions e (ks @ [appended_key code lid]))
           else client_put st e)"
    using lk assms(1,2,3)
    by (auto simp: save_completion_def load_entity_user getitem_completions_def Let_def
        split: sum.splits)
  from False have c1: "(lid \<noteq> 0 \<and> code = []) = False" by simp
  show ?thesis
  proof (cases "lid \<noteq> 0 \<and> key_of_lesson code lid \<in> set ks")
    case True
    then have c2: "(lid \<noteq> 0 \<and> key_of_lesson code lid \<in> set ks) = True" by simp
    have sc: "save_completion st uname code lid = client_put st e"
      using body found True by simp
    have "put_fits e = list_all key_fits ks"
      using assms(3) fe by (simp add: put_fits_def key_fits_names)
    then have cp: "client_put st e = (if list_all key_fits ks
             then Inr (AList.update (key_of_user uname) (snd e) st) else Inl ValueError)"
      using np fe by (simp add: client_put_def)
    show ?thesis unfolding sc cp c1 c2 if_False if_True same by (rule refl)
  next
    case notin: False
    then have c2: "(lid \<noteq> 0 \<and> key_of_lesson code lid \<in> set ks) = False" by simp
    have sc: "save_completion st uname code lid =
                client_put st (setitem_completions e (ks @ [appended_key code lid]))"
      using body found notin by simp
    have cp: "client_put st (setitem_completions e (ks @ [appended_key code lid]))
           = (if list_all key_fits (ks @ [appended_key code lid])
              then Inr (AList.update (key_of_user uname)
                     ((snd e)\<lparr>completions := Some (ks @ [appended_key code lid])\<rparr>) st)
              else Inl ValueError)"
      using np fits [of "ks @ [appended_key code lid]"] fe
      by (simp add: client_put_def setitem_completions_def)
    show ?thesis unfolding sc cp c1 c2 if_False by (rule refl)
  qed
qed

lemma filter_distinct_count_list_1:
  "distinct (filter P xs) \<Longrightarrow> P x \<Longrightarrow> x \<in> set xs \<Longrightarrow> count_list xs x = 1"
  by (induction xs) (auto split: if_splits)

lemma example_first_save:
  "save_completion example_store ''u1'' ''C1'' 2 = Inr example_after"
  by code_simp

lemma example_after_user:
  "lookup example_after (key_of_user ''u1'') =
     Some (key_of_user ''u1'',
       \<lparr>strs = [(''username'', ''u1''), (''email'', ''e@x.com''),
                (''passwordhash'', ''hash1''), (''about'', ''hi'')],
        completions = Some [key_of_lesson ''C1'' 2]\<rparr>)"
  by (simp add: example_after_def lookup_update)

text \<open>
  C9. For an existing user record, \<open>save_completion\<close> either raises before anything is
  written (\<open>ValueError\<close>, exactly when the lesson id is not 0 and the course code is
  empty or the lesson id does not fit 64 bits), or it writes the record back with every
  string property (\<open>username\<close>, \<open>email\<close>, \<open>passwordhash\<close>, \<open>about\<close>) as it was and
  the \<open>completions\<close> list with its entries and their order kept: unchanged when the
  lesson's key is in it, and with one key appended at its end otherwise.
\<close>

theorem save_completion_frame:
  assumes "wf_store st" "lookup st (key_of_user uname) = Some e"
  shows "(lid \<noteq> 0 \<and> (code = [] \<or> \<not> int64_ok lid) \<longrightarrow>
            save_completion st uname code lid = Inl ValueError)
       \<and> (\<not> (lid \<noteq> 0 \<and> (code = [] \<or> \<not> int64_ok lid)) \<longrightarrow>
            (\<exists>st' e' ks. save_completion st uname code lid = Inr st'
               \<and> lookup st' (key_of_user uname) = Some e'
               \<and> strs (snd e') = strs (snd e)
               \<and> completions (snd e) = Some ks
               \<and> completions (snd e') =
                   Some (if lid \<noteq> 0 \<and> key_of_lesson code lid \<in> set ks then ks
                         else ks @ [appended_key code lid])))"
proof -
  obtain ks where ks: "completions (snd e) = Some ks" "list_all key_fits ks"
    using user_entity_completions [OF assms] by blast
  have ne: "uname \<noteq> []" using user_key_present_nonempty [OF assms] .
  have in_ks: "int64_ok lid" if "key_of_lesson code lid \<in> set ks"
  proof -
    from that ks(2) have "key_fits (key_of_lesson code lid)" by (simp add: list_all_iff)
    then show ?thesis by (simp add: key_fits_names)
  qed
  have fits: "list_all key_fits (if lid \<noteq> 0 \<and> key_of_lesson code lid \<in> set ks then ks
                       else ks @ [appended_key code lid]) \<longleftrightarrow> lid = 0 \<or> int64_ok lid"
    using ks(2) in_ks by (auto simp: key_fits_appended_key list_all_iff)
  show ?thesis
    using save_completion_put [OF ne assms(2) ks(1), of code lid] ks(1) fits
    by (auto simp: lookup_update)
qed

theorem save_completion_frame_witness:
  "wf_store example_store
   \<and> lookup example_store (key_of_user ''u1'') =
       Some (key_of_user ''u1'',
         \<lparr>strs = [(''username'', ''u1''), (''email'', ''e@x.com''),
                  (''passwordhash'', ''hash1''), (''about'', ''hi'')],
          completions = Some []\<rparr>)
   \<and> (\<exists>st' e'. save_completion example_store ''u1'' ''C1'' 2 = Inr st'
         \<and> lookup st' (key_of_user ''u1'') = Some e'
         \<and> strs (snd e') = [(''username'', ''u1''), (''email'', ''e@x.com''),
                             (''passwordhash'', ''hash1''), (''about'', ''hi'')]
         \<and> completions (snd e') = Some [key_of_lesson ''C1'' 2])
   \<and> save_completion example_store ''u1'' [] 2 = Inl ValueError"
proof -
  have i: "int64_ok 2" by (simp add: int64_ok_def)
  show ?thesis
    using save_completion_frame [OF wf_example_store example_user, of 2 "''C1''"]
      save_completion_frame [OF wf_example_store example_user, of 2 "[]"]
      wf_example_store example_user i
    by (auto simp: appended_key_def)
qed

text \<open>
  C1, as amended. For a non-empty course code and a lesson id that is not 0 and fits 64
  bits, \<open>save_completion\<close> is idempotent: for a stored user record, a second call with
  the same arguments finds the key and returns the store of the first call unchanged,
  and the user's \<open>completions\<close> list then holds the lesson's key exactly once.
\<close>

theorem save_completion_idempotent:
  assumes "wf_store st" "lookup st (key_of_user uname) = Some e"
    and "code \<noteq> []" "lid \<noteq> 0" "int64_ok lid"
  shows "\<exists>st1 e1 ks1. save_completion st uname code lid = Inr st1
           \<and> save_completion st1 uname code lid = Inr st1
           \<and> lookup st1 (key_of_user uname) = Some e1
           \<and> completions (snd e1) = Some ks1
           \<and> count_list ks1 (key_of_lesson code lid) = 1"
proof -
  obtain ks where ks: "completions (snd e) = Some ks" "list_all key_fits ks"
    "distinct (filter (\<lambda>k. \<not> is_partial k) ks)"
    using user_entity_completions [OF assms(1,2)] by blast
  have ne: "uname \<noteq> []" using user_key_present_nonempty [OF assms(1,2)] .
  define k where "k = key_of_lesson code lid"
  have ak: "appended_key code lid = k" using assms(4) by (simp add: appended_key_def k_def)
  have kc: "\<not> is_partial k" using assms(4) by (simp add: k_def is_partial_def key_of_lesson_def)
  have kf: "key_fits k" using assms(5) by (simp add: k_def key_fits_names)
  have put: "save_completion st0 uname code lid =
               Inr (AList.update (key_of_user uname)
                      ((snd e0)\<lparr>completions := Some (if k \<in> set ks0 then ks0 else ks0 @ [k])\<rparr>)
                      st0)"
    if "lookup st0 (key_of_user uname) = Some e0" "completions (snd e0) = Some ks0"
      "list_all key_fits ks0" for st0 e0 ks0
  proof -
    have "list_all key_fits (if k \<in> set ks0 then ks0 else ks0 @ [k])"
      using that(3) kf by simp
    then show ?thesis
      using save_completion_put [OF ne that(1,2), of code lid] assms(3,4)
      unfolding ak k_def [symmetric] by simp
  qed
  define ks1 where "ks1 = (if k \<in> set ks then ks else ks @ [k])"
  define p1 where "p1 = (snd e)\<lparr>completions := Some ks1\<rparr>"
  define st1 where "st1 = AList.update (key_of_user uname) p1 st"
  have f1: "list_all key_fits ks1" using ks(2) kf by (simp add: ks1_def)
  have first: "save_completion st uname code lid = Inr st1"
    using put [OF assms(2) ks(1,2)] by (simp add: st1_def p1_def ks1_def)
  have g1: "lookup st1 (key_of_user uname) = Some (key_of_user uname, p1)"
    by (simp add: st1_def lookup_update)
  have c1: "completions (snd (key_of_user uname, p1)) = Some ks1" by (simp add: p1_def)
  have mem: "k \<in> set ks1" by (simp add: ks1_def)
  have d1: "distinct (filter (\<lambda>k. \<not> is_partial k) ks1)" using ks(3) kc by (simp add: ks1_def)
  have "p1\<lparr>completions := Some ks1\<rparr> = p1" by (simp add: p1_def)
  moreover have "AList.update (key_of_user uname) p1 st1 = st1"
    by (simp add: st1_def)
  ultimately have second: "save_completion st1 uname code lid = Inr st1"
    using put [OF g1 c1 f1] mem by simp
  have "count_list ks1 k = 1"
    using filter_distinct_count_list_1 [OF d1 kc mem] .
  with first second g1 c1 show ?thesis unfolding k_def by blast
qed

theorem save_completion_idempotent_witness:
  "wf_store example_store
   \<and> lookup example_store (key_of_user ''u1'') =
       Some (key_of_user ''u1'',
         \<lparr>strs = [(''username'', ''u1''), (''email'', ''e@x.com''),
                  (''passwordhash'', ''hash1''), (''about'', ''hi'')],
          completions = Some []\<rparr>)
   \<and> ''C1'' \<noteq> [] \<and> (2::int) \<noteq> 0 \<and> int64_ok 2
   \<and> save_completion example_store ''u1'' ''C1'' 2 = Inr example_after
   \<and> save_completion example_after ''u1'' ''C1'' 2 = Inr example_after"
proof -
  have i: "int64_ok 2" by (simp add: int64_ok_def)
  have c: "''C1'' \<noteq> []" and l: "(2::int) \<noteq> 0" by simp_all
  show ?thesis
    using save_completion_idempotent [OF wf_example_store example_user c l i]
      wf_example_store example_user example_first_save i
    by auto
qed

text \<open>
  C1 as stated, for every course code and lesson id, fails in three ways. With lesson
  id 0 the key is the kind-only lesson key, which is equal to no key, so each call
  appends it again and two calls leave two entries; with an empty course code and with
  a lesson id outside 64 bits the call raises and leaves no entry.
\<close>

theorem save_completion_idempotent_counterexample:
  "save_completion example_store ''u1'' ''C1'' 0 = Inr example_zero_once
   \<and> save_completion example_zero_once ''u1'' ''C1'' 0 = Inr example_zero_twice
   \<and> lookup example_zero_twice (key_of_user ''u1'') =
       Some (key_of_user ''u1'',
         \<lparr>strs = [(''username'', ''u1''), (''email'', ''e@x.com''),
                  (''passwordhash'', ''hash1''), (''about'', ''hi'')],
          completions = Some [Key LESSON_ENTITY NoneId None, Key LESSON_ENTITY NoneId None]\<rparr>)
   \<and> count_list [Key LESSON_ENTITY NoneId None, Key LESSON_ENTITY NoneId None]
        (Key LESSON_ENTITY NoneId None) = 2
   \<and> count_list [Key LESSON_ENTITY NoneId None, Key LESSON_ENTITY NoneId None]
        (key_of_lesson ''C1'' 0) = 0
   \<and> save_completion example_store ''u1'' [] 5 = Inl ValueError
   \<and> save_completion example_store ''u1'' ''C1'' (2 ^ 63) = Inl ValueError"
  by code_simp

section \<open>Completions saved and loaded again\<close>

lemma update_absent: "map_of al k = None \<Longrightarrow> AList.update k v al = al @ [(k, v)]"
  by (induction al) (auto split: if_splits)

lemma dict_entries_new:
  "map_of d c = None \<Longrightarrow> dict_entries (AList.update c inner d) = dict_entries d @ map (Pair c) inner"
  by (simp add: update_absent dict_entries_def)

lemma dict_entries_grow:
  "map_of d c = Some inner \<Longrightarrow>
     mset (dict_entries (AList.update c (inner @ [x]) d)) = mset (dict_entries d) + {#(c, x)#}"
proof (induction d)
  case Nil
  then show ?case by simp
next
  case (Cons a d)
  obtain c' i' where a: "a = (c', i')" by (cases a)
  show ?case
  proof (cases "c' = c")
    case True
    with Cons.prems a have "i' = inner" by simp
    with True a show ?thesis by (simp add: dict_entries_def)
  next
    case False
    with Cons.prems a have "map_of d c = Some inner" by simp
    from Cons.IH [OF this] False a show ?thesis by (simp add: dict_entries_def)
  qed
qed

lemma set_update_subset: "set (AList.update k v al) \<subseteq> insert (k, v) (set al)"
  by (induction al) auto

lemma dict_ok_update:
  assumes "dict_ok d" "distinct (map fst inner)"
  shows "dict_ok (AList.update c inner d)"
proof -
  have "distinct (map fst (AList.update c inner d))"
    using assms(1) by (simp add: dict_ok_def distinct_update)
  moreover have "\<forall>x\<in>set (AList.update c inner d). case x of (code, i) \<Rightarrow> distinct (map fst i)"
    using set_update_subset [of c inner d] assms by (auto simp: dict_ok_def list_all_iff)
  ultimately show ?thesis by (simp add: dict_ok_def list_all_iff)
qed

lemma dict_ok_inner: "dict_ok d \<Longrightarrow> map_of d c = Some inner \<Longrightarrow> distinct (map fst inner)"
  by (auto simp: dict_ok_def list_all_iff dest: map_of_SomeD)

lemma dict_ok_lookup:
  assumes "dict_ok d" "(c, l, t) \<in> set (dict_entries d)"
  shows "\<exists>inner. map_of d c = Some inner \<and> map_of inner l = Some t"
proof -
  from assms(2) obtain inner where i: "(c, inner) \<in> set d" "(l, t) \<in> set inner"
    by (auto simp: dict_entries_def)
  then have "map_of d c = Some inner" using assms(1) by (simp add: dict_ok_def)
  moreover have "map_of inner l = Some t"
    using dict_ok_inner [OF assms(1) calculation] i(2) by simp
  ultimately show ?thesis by blast
qed

lemma dict_entries_member:
  "map_of d c = Some inner \<Longrightarrow> x \<in> set inner \<Longrightarrow> (c, x) \<in> set (dict_entries d)"
  by (force simp: dict_entries_def dest: map_of_SomeD)

text \<open>One round of the loop of \<open>load_completions\<close> adds one entry when the key is new.\<close>

lemma completion_step_new:
  assumes le: "key_fits k" "lookup st k = Some le" "getitem le ''title'' = Inr t"
    and pk: "parent k = Some pk" "key_fits pk" "lookup st pk = Some ce"
      "key_name (entity_key ce) = c"
    and fresh: "\<forall>t'. (c, key_id k, t') \<notin> set (dict_entries d)"
    and ok: "dict_ok d"
  shows "\<exists>d'. completion_step st d k = Inr d' \<and> dict_ok d'
           \<and> mset (dict_entries d') = mset (dict_entries d) + {#(c, key_id k, t)#}"
proof (cases "map_of d c")
  case None
  have "completion_step st d k = Inr (AList.update c [(key_id k, t)] d)"
    using le pk None by (simp add: completion_step_def client_get_def Let_def update_conv')
  moreover have "dict_ok (AList.update c [(key_id k, t)] d)"
    using ok by (simp add: dict_ok_update)
  ultimately show ?thesis using None by (simp add: dict_entries_new)
next
  case (Some inner)
  have "map_of inner (key_id k) = None"
  proof (rule ccontr)
    assume "map_of inner (key_id k) \<noteq> None"
    then obtain t' where "(key_id k, t') \<in> set inner" by (auto dest: map_of_SomeD)
    then have "(c, key_id k, t') \<in> set (dict_entries d)"
      using dict_entries_member [OF Some] by blast
    with fresh show False by blast
  qed
  then have u: "AList.update (key_id k) t inner = inner @ [(key_id k, t)]"
    by (rule update_absent)
  have "completion_step st d k = Inr (AList.update c (inner @ [(key_id k, t)]) d)"
    using le pk Some u by (simp add: completion_step_def client_get_def Let_def)
  moreover have "distinct (map fst (AList.update (key_id k) t inner))"
    using dict_ok_inner [OF ok Some] by (rule distinct_update)
  then have "dict_ok (AList.update c (inner @ [(key_id k, t)]) d)"
    using ok u by (simp add: dict_ok_update)
  ultimately show ?thesis using dict_entries_grow [OF Some] by simp
qed

lemma completions_loop_entries:
  assumes "\<forall>(c, l)\<in>set todo. \<exists>le ce t. int64_ok l \<and> lookup st (key_of_lesson c l) = Some le
              \<and> getitem le ''title'' = Inr t \<and> lookup st (key_of_course c) = Some ce"
    and "distinct (seen @ todo)"
    and "mset (dict_entries d) = mset (map (\<lambda>(c, l). (Some c, Some l, stored_title st c l)) seen)"
    and "dict_ok d"
  shows "\<exists>d'. completions_loop st d (map (\<lambda>(c, l). key_of_lesson c l) todo) = Inr d' \<and> dict_ok d'
           \<and> mset (dict_entries d')
               = mset (map (\<lambda>(c, l). (Some c, Some l, stored_title st c l)) (seen @ todo))"
  using assms
proof (induction todo arbitrary: d seen)
  case Nil
  then show ?case by simp
next
  case (Cons p todo)
  obtain c l where p: "p = (c, l)" by (cases p)
  from Cons.prems(1) p obtain le ce t where
    fl: "int64_ok l"
    and le: "lookup st (key_of_lesson c l) = Some le" "getitem le ''title'' = Inr t"
    and ce: "lookup st (key_of_course c) = Some ce"
    by auto
  have kf: "key_fits (key_of_lesson c l)" "key_fits (key_of_course c)" using fl by (simp_all add: key_fits_names)
  have t: "stored_title st c l = t"
    using le by (auto simp: stored_title_def prop_value_def getitem_def split: option.splits)
  have "fst ce = key_of_course c" using ce lookup_Some by blast
  then have kn: "key_name (entity_key ce) = Some c"
    by (simp add: entity_key_def key_name_def key_of_course_def)
  have par: "parent (key_of_lesson c l) = Some (key_of_course c)" by (simp add: key_of_lesson_def)
  have kid: "key_id (key_of_lesson c l) = Some l" by (simp add: key_of_lesson_def key_id_def)
  have "(c, l) \<notin> set seen" using Cons.prems(2) p by auto
  moreover have "set (dict_entries d) = set (map (\<lambda>(c, l). (Some c, Some l, stored_title st c l)) seen)"
    using arg_cong [OF Cons.prems(3), of set_mset] by simp
  ultimately have fresh: "\<forall>t'. (Some c, key_id (key_of_lesson c l), t') \<notin> set (dict_entries d)"
    by (auto simp: kid)
  obtain d1 where d1: "completion_step st d (key_of_lesson c l) = Inr d1"
    "mset (dict_entries d1) = mset (dict_entries d) + {#(Some c, Some l, t)#}"
    and ok1: "dict_ok d1"
    using completion_step_new [OF kf(1) le par kf(2) ce kn fresh Cons.prems(4)] kid by auto
  have 1: "\<forall>(c, l)\<in>set todo. \<exists>le ce t. int64_ok l \<and> lookup st (key_of_lesson c l) = Some le
              \<and> getitem le ''title'' = Inr t \<and> lookup st (key_of_course c) = Some ce"
    using Cons.prems(1) by simp
  have 2: "distinct ((seen @ [p]) @ todo)" using Cons.prems(2) by simp
  have 3: "mset (dict_entries d1)
             = mset (map (\<lambda>(c, l). (Some c, Some l, stored_title st c l)) (seen @ [p]))"
    using d1(2) Cons.prems(3) p t by simp
  from Cons.IH [OF 1 2 3 ok1] d1(1) p show ?case by simp
qed

text \<open>A run of \<open>save_completion\<close> calls with new keys appends them in order.\<close>

lemma save_completion_all_put:
  assumes "uname \<noteq> []" "lookup st (key_of_user uname) = Some e" "completions (snd e) = Some ks"
    and "list_all key_fits ks"
    and "\<forall>(c, l)\<in>set pairs. c \<noteq> [] \<and> l \<noteq> 0 \<and> int64_ok l"
    and "distinct (ks @ map (\<lambda>(c, l). key_of_lesson c l) pairs)"
  shows "save_completion_all st uname pairs =
           Inr (AList.update (key_of_user uname)
                  ((snd e)\<lparr>completions := Some (ks @ map (\<lambda>(c, l). key_of_lesson c l) pairs)\<rparr>) st)"
  using assms(2-)
proof (induction pairs arbitrary: st e ks)
  case Nil
  have "(snd e)\<lparr>completions := Some ks\<rparr> = snd e" using Nil.prems(2) by simp
  moreover have "map_of st (key_of_user uname) = Some (snd e)"
    using Nil.prems(1) by (auto simp: lookup_def split: option.splits)
  ultimately show ?case by (simp add: update_triv)
next
  case (Cons p pairs)
  obtain c l where p: "p = (c, l)" by (cases p)
  let ?k = "key_of_lesson c l"
  let ?p1 = "(snd e)\<lparr>completions := Some (ks @ [?k])\<rparr>"
  let ?st1 = "AList.update (key_of_user uname) ?p1 st"
  have ok: "c \<noteq> []" "l \<noteq> 0" "int64_ok l" using Cons.prems(4) p by auto
  have "?k \<notin> set ks" using Cons.prems(5) p by auto
  moreover have f1: "list_all key_fits (ks @ [?k])" using Cons.prems(3) ok(3) by (simp add: key_fits_names)
  ultimately have s1: "save_completion st uname c l = Inr ?st1"
    using save_completion_put [OF assms(1) Cons.prems(1,2), of c l] ok
    by (simp add: appended_key_def)
  have g1: "lookup ?st1 (key_of_user uname) = Some (key_of_user uname, ?p1)"
    by (simp add: lookup_update)
  have c1: "completions (snd (key_of_user uname, ?p1)) = Some (ks @ [?k])" by simp
  have r1: "\<forall>(c, l)\<in>set pairs. c \<noteq> [] \<and> l \<noteq> 0 \<and> int64_ok l" using Cons.prems(4) by simp
  have d1: "distinct ((ks @ [?k]) @ map (\<lambda>(c, l). key_of_lesson c l) pairs)"
    using Cons.prems(5) p by simp
  from Cons.IH [OF g1 c1 f1 r1 d1] s1 p show ?case by simp
qed

lemma present_lesson_ids:
  assumes "wf_store st" "lookup st (key_of_lesson c l) \<noteq> None"
  shows "c \<noteq> [] \<and> l \<noteq> 0 \<and> int64_ok l"
proof -
  have "key_complete (key_of_lesson c l)"
    using wf_store_incomplete [OF assms(1), of "key_of_lesson c l"] assms(2) by auto
  moreover have "key_fits (key_of_lesson c l)"
    using wf_store_present_fits [OF assms(1), of "key_of_lesson c l"] assms(2) by auto
  ultimately show ?thesis by (simp add: key_of_lesson_def key_of_course_def)
qed

lemma lesson_entity_title:
  assumes "wf_store st" "lookup st (key_of_lesson c l) = Some le"
  shows "\<exists>t. getitem le ''title'' = Inr t"
proof -
  from assms(2) have "le \<in> set st" "fst le = key_of_lesson c l" using lookup_Some by blast+
  then have "has_props [''title'', ''content''] le"
    using wf_store_entity [OF assms(1), of le] by (simp add: entity_ok_def key_of_lesson_def)
  then show ?thesis by (auto simp: has_props_def has_prop_def getitem_def)
qed

lemma inj_on_lesson_key: "inj (\<lambda>(c, l). key_of_lesson c l)"
  by (auto simp: inj_def key_of_lesson_def key_of_course_def)

lemma example_run:
  "save_completion_all example_store ''u1'' [(''C1'', 2), (''C2'', 1), (''C1'', 1)]
     = Inr example_done"
  by code_simp

lemma example_loaded:
  "load_completions example_done ''u1'' =
     Inr [(Some ''C1'', [(Some 2, ''L2''), (Some 1, ''L1'')]), (Some ''C2'', [(Some 1, ''M1'')])]"
  by code_simp

lemma example_present:
  "lookup example_store (key_of_lesson ''C1'' 2) \<noteq> None"
  "lookup example_store (key_of_lesson ''C2'' 1) \<noteq> None"
  "lookup example_store (key_of_lesson ''C1'' 1) \<noteq> None"
  "lookup example_store (key_of_course ''C1'') \<noteq> None"
  "lookup example_store (key_of_course ''C2'') \<noteq> None"
  by code_simp+

text \<open>
  C5. From a user record with an empty \<open>completions\<close> list, after one \<open>save_completion\<close>
  call for each of N pairwise distinct (course code, lesson id) pairs whose lesson and
  course records are in the store, \<open>load_completions\<close> returns a two-level dictionary
  with exactly N entries: one for each pair, found under the course code and then under
  the lesson id, with the title stored for that lesson as its value.
\<close>

theorem completions_round_trip:
  assumes wf: "wf_store st"
    and user: "lookup st (key_of_user uname) = Some e" "completions (snd e) = Some []"
    and dist: "distinct pairs"
    and ex: "\<forall>(c, l)\<in>set pairs. lookup st (key_of_lesson c l) \<noteq> None
                                \<and> lookup st (key_of_course c) \<noteq> None"
  shows "\<exists>st' d. save_completion_all st uname pairs = Inr st'
           \<and> load_completions st' uname = Inr d
           \<and> length (dict_entries d) = length pairs
           \<and> mset (dict_entries d)
               = mset (map (\<lambda>(c, l). (Some c, Some l, stored_title st c l)) pairs)
           \<and> dict_ok d
           \<and> (\<forall>(c, l)\<in>set pairs. \<exists>inner. map_of d (Some c) = Some inner
                  \<and> map_of inner (Some l) = Some (stored_title st c l))"
proof -
  have ne: "uname \<noteq> []" using user_key_present_nonempty [OF wf user(1)] .
  have ids: "\<forall>(c, l)\<in>set pairs. c \<noteq> [] \<and> l \<noteq> 0 \<and> int64_ok l"
    using present_lesson_ids [OF wf] ex by blast
  have dk: "distinct (map (\<lambda>(c, l). key_of_lesson c l) pairs)"
    using dist inj_on_subset [OF inj_on_lesson_key, of "set pairs"] by (simp add: distinct_map)
  define p' where "p' = (snd e)\<lparr>completions := Some (map (\<lambda>(c, l). key_of_lesson c l) pairs)\<rparr>"
  define st' where "st' = AList.update (key_of_user uname) p' st"
  have saved: "save_completion_all st uname pairs = Inr st'"
    using save_completion_all_put [OF ne user _ ids] dk by (simp add: st'_def p'_def)
  have other: "lookup st' k = lookup st k" if "kind k \<noteq> USER_ENTITY" for k
    using that by (auto simp: st'_def lookup_update key_of_user_def)
  have lk: "kind (key_of_lesson c l) \<noteq> USER_ENTITY" "kind (key_of_course c) \<noteq> USER_ENTITY" for c l
    by (simp_all add: key_of_lesson_def key_of_course_def USER_ENTITY_def LESSON_ENTITY_def
        COURSE_ENTITY_def)
  have titles: "stored_title st' c l = stored_title st c l" for c l
    by (simp add: stored_title_def other lk)
  have present: "\<forall>(c, l)\<in>set pairs. \<exists>le ce t. int64_ok l \<and> lookup st' (key_of_lesson c l) = Some le
              \<and> getitem le ''title'' = Inr t \<and> lookup st' (key_of_course c) = Some ce"
  proof (clarify)
    fix c l assume in_pairs: "(c, l) \<in> set pairs"
    with ex obtain le ce where "lookup st (key_of_lesson c l) = Some le"
      "lookup st (key_of_course c) = Some ce" by fastforce
    moreover then obtain t where "getitem le ''title'' = Inr t"
      using lesson_entity_title [OF wf] by blast
    moreover have "int64_ok l" using ids in_pairs by auto
    ultimately show "\<exists>le ce t. int64_ok l \<and> lookup st' (key_of_lesson c l) = Some le
              \<and> getitem le ''title'' = Inr t \<and> lookup st' (key_of_course c) = Some ce"
      by (simp add: other lk)
  qed
  obtain d where d: "completions_loop st' [] (map (\<lambda>(c, l). key_of_lesson c l) pairs) = Inr d"
    "mset (dict_entries d) = mset (map (\<lambda>(c, l). (Some c, Some l, stored_title st' c l)) pairs)"
    and ok: "dict_ok d"
  proof -
    have "dict_ok []" by (simp add: dict_ok_def)
    moreover
    have "mset (dict_entries []) = mset (map (\<lambda>(c, l). (Some c, Some l, stored_title st' c l)) [])"
      by (simp add: dict_entries_def)
    moreover have "distinct ([] @ pairs)" using dist by simp
    ultimately show ?thesis
      using completions_loop_entries [OF present, of "[]" "[]"] that by auto
  qed
  have look: "\<forall>(c, l)\<in>set pairs. \<exists>inner. map_of d (Some c) = Some inner
                  \<and> map_of inner (Some l) = Some (stored_title st c l)"
  proof (clarify)
    fix c l assume "(c, l) \<in> set pairs"
    then have "(Some c, Some l, stored_title st' c l)
                 \<in> set (map (\<lambda>(c, l). (Some c, Some l, stored_title st' c l)) pairs)"
      by force
    then have "(Some c, Some l, stored_title st' c l) \<in> set (dict_entries d)"
      using arg_cong [OF d(2), of set_mset] by simp
    then show "\<exists>inner. map_of d (Some c) = Some inner
                  \<and> map_of inner (Some l) = Some (stored_title st c l)"
      using dict_ok_lookup [OF ok] by (simp add: titles)
  qed
  have "load_completions st' uname = Inr d"
    using d(1) ne
    by (simp add: load_completions_def load_entity_user st'_def lookup_update
        getitem_completions_def p'_def)
  moreover have m: "mset (dict_entries d)
               = mset (map (\<lambda>(c, l). (Some c, Some l, stored_title st c l)) pairs)"
    using d(2) by (simp add: titles)
  moreover have "length (dict_entries d) = length pairs"
    using arg_cong [OF m, of size] by simp
  ultimately show ?thesis using saved ok look by blast
qed

theorem completions_round_trip_witness:
  "wf_store example_store
   \<and> lookup example_store (key_of_user ''u1'') =
       Some (key_of_user ''u1'',
         \<lparr>strs = [(''username'', ''u1''), (''email'', ''e@x.com''),
                  (''passwordhash'', ''hash1''), (''about'', ''hi'')],
          completions = Some []\<rparr>)
   \<and> distinct [(''C1'', 2::int), (''C2'', 1), (''C1'', 1)]
   \<and> lookup example_store (key_of_lesson ''C1'' 2) \<noteq> None
   \<and> lookup example_store (key_of_lesson ''C2'' 1) \<noteq> None
   \<and> lookup example_store (key_of_lesson ''C1'' 1) \<noteq> None
   \<and> lookup example_store (key_of_course ''C1'') \<noteq> None
   \<and> lookup example_store (key_of_course ''C2'') \<noteq> None
   \<and> save_completion_all example_store ''u1'' [(''C1'', 2), (''C2'', 1), (''C1'', 1)]
       = Inr example_done
   \<and> load_completions example_done ''u1'' =
       Inr [(Some ''C1'', [(Some 2, ''L2''), (Some 1, ''L1'')]), (Some ''C2'', [(Some 1, ''M1'')])]
   \<and> length (dict_entries
         [(Some ''C1'', [(Some 2, ''L2''), (Some 1, ''L1'')]), (Some ''C2'', [(Some 1, ''M1'')])]) = 3"
proof -
  have d: "distinct [(''C1'', 2::int), (''C2'', 1), (''C1'', 1)]" by simp
  have p: "\<forall>(c, l)\<in>set [(''C1'', 2::int), (''C2'', 1), (''C1'', 1)].
             lookup example_store (key_of_lesson c l) \<noteq> None
             \<and> lookup example_store (key_of_course c) \<noteq> None"
    using example_present by simp
  have c: "completions (snd (key_of_user ''u1'',
         \<lparr>strs = [(''username'', ''u1''), (''email'', ''e@x.com''),
                  (''passwordhash'', ''hash1''), (''about'', ''hi'')],
          completions = Some []\<rparr>)) = Some []" by simp
  from completions_round_trip [OF wf_example_store example_user c d p]
  obtain st' dd where r: "save_completion_all example_store ''u1'' [(''C1'', 2), (''C2'', 1), (''C1'', 1)] = Inr st'"
    "load_completions st' ''u1'' = Inr dd"
    "length (dict_entries dd) = length [(''C1'', 2::int), (''C2'', 1), (''C1'', 1)]"
    by blast
  from r(1) example_run have "st' = example_done" by simp
  with r(2) example_loaded have "dd = [(Some ''C1'', [(Some 2, ''L2''), (Some 1, ''L1'')]), (Some ''C2'', [(Some 1, ''M1'')])]"
    by simp
  with r(3) have "length (dict_entries
         [(Some ''C1'', [(Some 2, ''L2''), (Some 1, ''L1'')]), (Some ''C2'', [(Some 1, ''M1'')])]) = 3"
    by simp
  then show ?thesis
    using wf_example_store example_user d example_present example_run example_loaded by simp
qed


section \<open>The save operations keep the shape of the records\<close>

text \<open>
  The well-formedness assumed of the store above is an invariant: the small store has
  it, and \<open>save_user\<close>, \<open>save_about_user\<close> and \<open>save_completion\<close> keep it whenever they
  return (for \<open>save_user\<close> with an empty user name, as long as the number the store
  assigns fits 64 bits).
\<close>

lemma wf_store_update:
  assumes "wf_store st" "entity_ok (k, p)"
  shows "wf_store (AList.update k p st)"
  using set_update_subset [of k p st] assms by (auto simp: wf_store_def list_all_iff)

lemma fold_max_ge: "(a::int) \<le> fold max xs a"
  by (induction xs arbitrary: a) (auto intro: order_trans [OF max.cobounded2])

lemma fresh_id_pos: "0 < fresh_id st"
  using fold_max_ge [of 0 "List.map_filter (\<lambda>e. key_id (fst e)) st"] by (simp add: fresh_id_def)

lemma save_user_wf:
  assumes "wf_store st" "save_user st user pwhash = Inr st'"
    and "username user \<noteq> [] \<or> int64_ok (fresh_id st)"
  shows "wf_store st'"
proof -
  let ?p = "\<lparr>strs = [(''username'', username user), (''email'', email user),
                      (''passwordhash'', pwhash), (''about'', [])],
              completions = Some []\<rparr>"
  have ok: "entity_ok (Key USER_ENTITY i None, ?p)" if "truthy i" "ident_fits i" for i
    using that
    by (simp add: entity_ok_def has_props_def has_prop_def USER_ENTITY_def COURSE_ENTITY_def
        LESSON_ENTITY_def)
  show ?thesis
  proof (cases "username user = []")
    case True
    have "truthy (IntId (fresh_id st))" using fresh_id_pos [of st] by simp
    moreover have "ident_fits (IntId (fresh_id st))" using True assms(3) by simp
    ultimately have "wf_store (AList.update (Key USER_ENTITY (IntId (fresh_id st)) None) ?p st)"
      using wf_store_update [OF assms(1) ok] by blast
    then show ?thesis
      using assms(2) True by (simp add: save_user_put client_put_def put_fits_def is_partial_def)
  next
    case False
    then have "truthy (StrId (username user))" "ident_fits (StrId (username user))" by simp_all
    then have "wf_store (AList.update (Key USER_ENTITY (StrId (username user)) None) ?p st)"
      using wf_store_update [OF assms(1) ok] by blast
    then show ?thesis
      using assms(2) False
      by (simp add: save_user_put client_put_def put_fits_def is_partial_def key_of_user_def)
  qed
qed

lemma entity_ok_same_strs:
  assumes "entity_ok (k, p)" "map fst (strs p') = map fst (strs p)"
    "kind k = USER_ENTITY \<longrightarrow>
       (\<exists>ks. completions p' = Some ks \<and> list_all key_fits ks
            \<and> distinct (filter (\<lambda>k. \<not> is_partial k) ks))"
  shows "entity_ok (k, p')"
proof -
  have "has_prop n (k, p') = has_prop n (k, p)" for n
    using assms(2) by (simp add: has_prop_def map_of_eq_None_iff) (metis list.set_map)
  then have "has_props ns (k, p') = has_props ns (k, p)" for ns
    by (simp add: has_props_def)
  then show ?thesis using assms(1,3) by (auto simp: entity_ok_def)
qed

lemma save_completion_wf:
  assumes "wf_store st" "save_completion st uname code lid = Inr st'"
  shows "wf_store st'"
proof (cases "lookup st (key_of_user uname)")
  case None
  then have "load_entity st USER_ENTITY (StrId uname) None = Inr None"
    using load_entity_absent [OF assms(1)] by (simp add: key_of_user_def)
  then have "\<exists>err. save_completion st uname code lid = Inl err"
    by (auto simp: save_completion_def split: sum.splits)
  with assms(2) show ?thesis by simp
next
  case (Some e)
  obtain ks where ks: "completions (snd e) = Some ks" "list_all key_fits ks"
    "distinct (filter (\<lambda>k. \<not> is_partial k) ks)"
    using user_entity_completions [OF assms(1) Some] by blast
  have ne: "uname \<noteq> []" using user_key_present_nonempty [OF assms(1) Some] .
  define ks' where "ks' = (if lid \<noteq> 0 \<and> key_of_lesson code lid \<in> set ks then ks
                           else ks @ [appended_key code lid])"
  have res: "list_all key_fits ks'"
    "st' = AList.update (key_of_user uname) ((snd e)\<lparr>completions := Some ks'\<rparr>) st"
    using save_completion_put [OF ne Some ks(1), of code lid] assms(2)
    by (auto simp: ks'_def split: if_splits)
  have d': "distinct (filter (\<lambda>k. \<not> is_partial k) ks')"
    using ks(3) by (auto simp: ks'_def appended_key_def is_partial_def)
  have "e \<in> set st" "fst e = key_of_user uname" using Some lookup_Some by blast+
  then have ok: "entity_ok (key_of_user uname, snd e)"
    using wf_store_entity [OF assms(1), of e] by (metis prod.collapse)
  have "entity_ok (key_of_user uname, (snd e)\<lparr>completions := Some ks'\<rparr>)"
    using res(1) d' by (intro entity_ok_same_strs [OF ok]) auto
  from wf_store_update [OF assms(1) this] show ?thesis using res(2) by simp
qed

lemma save_about_user_wf:
  assumes "wf_store st" "save_about_user st uname abt = Inr st'"
  shows "wf_store st'"
proof (cases "lookup st (key_of_user uname)")
  case None
  then have "load_entity st USER_ENTITY (StrId uname) None = Inr None"
    using load_entity_absent [OF assms(1)] by (simp add: key_of_user_def)
  then show ?thesis using assms(2) by (simp add: save_about_user_def)
next
  case (Some e)
  obtain ks where ks: "completions (snd e) = Some ks" "list_all key_fits ks"
    "distinct (filter (\<lambda>k. \<not> is_partial k) ks)"
    using user_entity_completions [OF assms(1) Some] by blast
  have ne: "uname \<noteq> []" using user_key_present_nonempty [OF assms(1) Some] .
  have m: "e \<in> set st" and fe: "fst e = key_of_user uname" using Some lookup_Some by blast+
  then have ok: "entity_ok (key_of_user uname, snd e)"
    using wf_store_entity [OF assms(1), of e] by (metis prod.collapse)
  have np: "\<not> is_partial (key_of_user uname)" using ne by (simp add: is_partial_def key_of_user_def)
  let ?p = "(snd e)\<lparr>strs := AList.update ''about'' abt (strs (snd e))\<rparr>"
  have pf: "put_fits (key_of_user uname, ?p)" using ks(1,2) by (simp add: put_fits_def key_fits_names)
  have st': "st' = AList.update (key_of_user uname) ?p st"
    using assms(2) Some ne np pf fe
    by (simp add: save_about_user_def load_entity_user client_put_def setitem_def)
  obtain a where "map_of (strs (snd e)) ''about'' = Some a"
    using user_entity_about [OF assms(1)] Some unfolding key_of_user_def by blast
  then have "map fst (AList.update ''about'' abt (strs (snd e))) = map fst (strs (snd e))"
    by (simp add: update_keys map_of_eq_None_iff) (metis domI dom_map_of_conv_image_fst)
  then have "entity_ok (key_of_user uname, ?p)"
    using ks by (intro entity_ok_same_strs [OF ok]) auto
  from wf_store_update [OF assms(1) this] show ?thesis using st' by simp
qed


end
